theory Spec2Isabelle
  imports
    Complex_Main
    "HOL-Library.Sublist"
    "HOL-Library.Multiset"
    "HOL-Library.List_Lexorder"
    "HOL-Library.Char_ord"
begin

section \<open>Book Finder: the logic of \<^verbatim>\<open>src/App.jsx\<close>\<close>

text \<open>
  The application keeps a list of book records fetched from a search API, removes
  duplicates while merging pages, filters, sorts and paginates the list on the client, and
  keeps a list of favourites. This theory embeds those functions and the component's state
  transitions, and proves the properties stated about them.

  JavaScript strings are modelled as \<^typ>\<open>string\<close>, read as the UTF-8 bytes of the text.
  A property that may be absent from an object is an \<^typ>\<open>'a option\<close>; \<^term>\<open>None\<close> is
  \<^verbatim>\<open>undefined\<close>.
\<close>

subsection \<open>Records\<close>

text \<open>
  One object shape serves the documents of a response, the accumulated records (which
  carry \<^verbatim>\<open>__id\<close>, here \<open>dunder_id\<close>) and the favourites (which lack \<^verbatim>\<open>language\<close>,
  \<^verbatim>\<open>subject\<close> and \<^verbatim>\<open>edition_key\<close>): JavaScript objects are structurally typed, and the
  functions below are applied to all three.
\<close>

record doc =
  dunder_id :: "string option"
  key :: "string option"
  title :: "string option"
  author_name :: "string list option"
  first_publish_year :: "int option"
  cover_i :: "int option"
  edition_key :: "string list option"
  language :: "string list option"
  subject :: "string list option"
  isbn :: "string list option"

definition PER_PAGE :: nat where
  "PER_PAGE = 20"

definition OPENLIB_BASE :: string where
  "OPENLIB_BASE = ''https://openlibrary.org''"

subsection \<open>uniqueBy\<close>

text \<open>
  \<^verbatim>\<open>arr.filter((x) => (seen.has(x[key]) ? false : seen.add(x[key])))\<close>: the filter walks
  the array from the left with the set \<open>seen\<close> as its state; \<^verbatim>\<open>seen.add\<close> returns the set,
  which is truthy, so an element whose key is new is kept. The property name \<open>key\<close> is
  modelled as the projection it selects.
\<close>

fun uniqueBy_filter :: "'k set \<Rightarrow> ('a \<Rightarrow> 'k) \<Rightarrow> 'a list \<Rightarrow> 'a list" where
  "uniqueBy_filter seen k [] = []"
| "uniqueBy_filter seen k (x # xs) =
     (if k x \<in> seen then uniqueBy_filter seen k xs
      else x # uniqueBy_filter (insert (k x) seen) k xs)"

definition uniqueBy :: "'a list \<Rightarrow> ('a \<Rightarrow> 'k) \<Rightarrow> 'a list" where
  "uniqueBy arr k = uniqueBy_filter {} k arr"

text \<open>The updater given to \<^verbatim>\<open>setDocs\<close> in \<^verbatim>\<open>fetchPage\<close>:
  \<^verbatim>\<open>(prev) => uniqueBy([...prev, ...newDocs], '__id')\<close>.\<close>

definition mergeDocs :: "doc list \<Rightarrow> doc list \<Rightarrow> doc list" where
  "mergeDocs prev newDocs = uniqueBy (prev @ newDocs) dunder_id"

subsection \<open>Strings\<close>

text \<open>
  The code points that \<^verbatim>\<open>String.prototype.trim\<close> and \<^verbatim>\<open>parseInt\<close> treat as white space
  (WhiteSpace and LineTerminator of the language standard), each as its UTF-8 bytes:
  U+0009 to U+000D, U+0020, U+00A0, U+1680, U+2000 to U+200A, U+2028, U+2029, U+202F,
  U+205F, U+3000 and U+FEFF.
\<close>

definition whitespace :: "string list" where
  "whitespace =
     [[CHR 0x09], [CHR 0x0A], [CHR 0x0B], [CHR 0x0C], [CHR 0x0D], [CHR 0x20],
      [CHR 0xC2, CHR 0xA0], [CHR 0xE1, CHR 0x9A, CHR 0x80]] @
     map (\<lambda>b. [CHR 0xE2, CHR 0x80, char_of b]) [0x80 ..< (0x8B::nat)] @
     [[CHR 0xE2, CHR 0x80, CHR 0xA8], [CHR 0xE2, CHR 0x80, CHR 0xA9],
      [CHR 0xE2, CHR 0x80, CHR 0xAF], [CHR 0xE2, CHR 0x81, CHR 0x9F],
      [CHR 0xE3, CHR 0x80, CHR 0x80], [CHR 0xEF, CHR 0xBB, CHR 0xBF]]"

text \<open>Removes, as long as one is there, a leading sequence out of \<open>ws\<close>.\<close>

function stripStart :: "string list \<Rightarrow> string \<Rightarrow> string" where
  "stripStart ws s =
     (case find (\<lambda>w. w \<noteq> [] \<and> prefix w s) ws of
        None \<Rightarrow> s
      | Some w \<Rightarrow> stripStart ws (drop (length w) s))"
  by pat_completeness auto
termination
proof (relation "measure (\<lambda>(ws, s). length s)")
  show "wf (measure (\<lambda>(ws, s). length s))" by simp
next
  fix ws :: "string list" and s w :: string
  assume "find (\<lambda>w. w \<noteq> [] \<and> prefix w s) ws = Some w"
  then have "w \<noteq> []" and "prefix w s"
    by (auto simp: find_Some_iff)
  then have "0 < length w" and "length w \<le> length s"
    by (auto simp: prefix_length_le)
  then have "length s - length w < length s"
    by arith
  then show "((ws, drop (length w) s), (ws, s)) \<in> measure (\<lambda>(ws, s). length s)"
    by simp
qed

declare stripStart.simps [simp del]

definition trimStart :: "string \<Rightarrow> string" where
  "trimStart s = stripStart whitespace s"

definition trimEnd :: "string \<Rightarrow> string" where
  "trimEnd s = rev (stripStart (map rev whitespace) (rev s))"

definition trim :: "string \<Rightarrow> string" where
  "trim s = trimEnd (trimStart s)"

definition isDigit :: "char \<Rightarrow> bool" where
  "isDigit c = (CHR ''0'' \<le> c \<and> c \<le> CHR ''9'')"

definition digitVal :: "char \<Rightarrow> nat" where
  "digitVal c = of_char c - 48"

text \<open>
  \<^verbatim>\<open>parseInt(s, 10)\<close>: leading white space is skipped, one sign is read, then the longest
  run of decimal digits; whatever follows is ignored. Without a digit the result is
  \<^verbatim>\<open>NaN\<close>, here \<^term>\<open>None\<close>. The value is kept as an exact integer: publish years are
  integers far below \<open>2^53\<close>, and comparing such a number with the double nearest to a
  bound gives what comparing it with the exact bound gives.
\<close>

definition parseInt :: "string \<Rightarrow> int option" where
  "parseInt s =
     (let S = trimStart s;
          sign = (if S \<noteq> [] \<and> hd S = CHR ''-'' then - 1 else 1);
          S1 = (if S \<noteq> [] \<and> (hd S = CHR ''+'' \<or> hd S = CHR ''-'') then tl S else S);
          Z = takeWhile isDigit S1
      in if Z = [] then None
         else Some (sign * int (foldl (\<lambda>a c. 10 * a + digitVal c) 0 Z)))"

definition digitChar :: "nat \<Rightarrow> char" where
  "digitChar n = char_of (48 + n)"

text \<open>\<^verbatim>\<open>String(n)\<close> for a non-negative integer \<open>n\<close> (an API page number, an HTTP status):
  its decimal digits.\<close>

function String_of_number :: "nat \<Rightarrow> string" where
  "String_of_number n =
     (if n < 10 then [digitChar n]
      else String_of_number (n div 10) @ [digitChar (n mod 10)])"
  by pat_completeness auto
termination
  by (relation "measure id") auto

declare String_of_number.simps [simp del]

text \<open>\<^verbatim>\<open>Array.prototype.join\<close> on an array of strings.\<close>

fun join :: "string \<Rightarrow> string list \<Rightarrow> string" where
  "join sep [] = []"
| "join sep [x] = x"
| "join sep (x # y # ys) = x @ sep @ join sep (y # ys)"

subsection \<open>buildSearchURL\<close>

text \<open>
  \<^verbatim>\<open>URLSearchParams\<close> is a list of name-value pairs. \<^verbatim>\<open>set\<close> overwrites the first pair
  of that name and removes the others, or appends a pair when there is none.
\<close>

type_synonym URLSearchParams = "(string \<times> string) list"

fun params_set :: "string \<Rightarrow> string \<Rightarrow> URLSearchParams \<Rightarrow> URLSearchParams" where
  "params_set n v [] = [(n, v)]"
| "params_set n v (p # ps) =
     (if fst p = n then (n, v) # filter (\<lambda>q. fst q \<noteq> n) ps
      else p # params_set n v ps)"

text \<open>
  The \<^verbatim>\<open>application/x-www-form-urlencoded\<close> serializer behind \<^verbatim>\<open>params.toString()\<close>:
  letters, digits and \<^verbatim>\<open>* - . _\<close> stand for themselves, a space becomes \<^verbatim>\<open>+\<close>, every
  other byte becomes \<^verbatim>\<open>%XX\<close> with upper-case hexadecimal digits.
\<close>

definition hexDigit :: "nat \<Rightarrow> char" where
  "hexDigit n = ''0123456789ABCDEF'' ! n"

definition urlencode_plain :: "char \<Rightarrow> bool" where
  "urlencode_plain c =
     ((CHR ''a'' \<le> c \<and> c \<le> CHR ''z'') \<or> (CHR ''A'' \<le> c \<and> c \<le> CHR ''Z'') \<or>
      (CHR ''0'' \<le> c \<and> c \<le> CHR ''9'') \<or>
      c = CHR ''*'' \<or> c = CHR ''-'' \<or> c = CHR ''.'' \<or> c = CHR ''_'')"

definition urlencode_byte :: "char \<Rightarrow> string" where
  "urlencode_byte c =
     (if c = CHR '' '' then ''+''
      else if urlencode_plain c then [c]
      else [CHR ''%'', hexDigit (of_char c div 16), hexDigit (of_char c mod 16)])"

definition urlencode :: "string \<Rightarrow> string" where
  "urlencode s = concat (map urlencode_byte s)"

definition params_toString :: "URLSearchParams \<Rightarrow> string" where
  "params_toString ps = join ''&'' (map (\<lambda>p. urlencode (fst p) @ ''='' @ urlencode (snd p)) ps)"

definition search_fields :: "string list" where
  "search_fields =
     [''key'', ''title'', ''author_name'', ''first_publish_year'', ''cover_i'',
      ''edition_key'', ''language'', ''subject'', ''isbn'']"

text \<open>The parameters that \<^verbatim>\<open>buildSearchURL\<close> collects in \<^verbatim>\<open>params\<close>, in its order.\<close>

definition buildSearchParams :: "string \<Rightarrow> string \<Rightarrow> nat \<Rightarrow> URLSearchParams" where
  "buildSearchParams mode query apiPage =
     (let params = [];
          params =
            (if mode = ''title'' then params_set ''title'' query params
             else if mode = ''author'' then params_set ''author'' query params
             else if mode = ''isbn'' then params_set ''isbn'' query params
             else if mode = ''subject'' then params_set ''subject'' query params
             else params_set ''q'' query params);
          params = params_set ''page'' (String_of_number apiPage) params;
          params = params_set ''fields'' (join '','' search_fields) params;
          params = params_set ''limit'' ''100'' params
      in params)"

text \<open>
  \<^verbatim>\<open>url.search = s; url.toString()\<close> on a URL without query and fragment: the serialized
  parameters contain no character that the setter would escape, so the result is the
  address, a question mark and \<open>s\<close>; one leading question mark of \<open>s\<close> is dropped, and an
  empty \<open>s\<close> leaves the address as it is.
\<close>

definition url_with_search :: "string \<Rightarrow> string \<Rightarrow> string" where
  "url_with_search url s =
     (if s = [] then url
      else url @ ''?'' @ (if hd s = CHR ''?'' then tl s else s))"

definition buildSearchURL :: "string \<Rightarrow> string \<Rightarrow> nat \<Rightarrow> string" where
  "buildSearchURL mode query apiPage =
     url_with_search (OPENLIB_BASE @ ''/search.json'')
       (params_toString (buildSearchParams mode query apiPage))"

subsection \<open>Falsy values\<close>

text \<open>
  \<^verbatim>\<open>x || d\<close> yields \<open>d\<close> when \<open>x\<close> is falsy: \<^verbatim>\<open>undefined\<close>, the empty string, the number
  zero. An array is never falsy.
\<close>

definition str_or :: "string \<Rightarrow> string \<Rightarrow> string" where
  "str_or s d = (if s = [] then d else s)"

definition opt_str_or :: "string option \<Rightarrow> string \<Rightarrow> string" where
  "opt_str_or s d = (case s of None \<Rightarrow> d | Some t \<Rightarrow> str_or t d)"

definition num_or :: "'a::zero option \<Rightarrow> 'a \<Rightarrow> 'a" where
  "num_or n d = (case n of None \<Rightarrow> d | Some v \<Rightarrow> if v = 0 then d else v)"

definition list_or :: "'a list option \<Rightarrow> 'a list \<Rightarrow> 'a list" where
  "list_or l d = (case l of None \<Rightarrow> d | Some v \<Rightarrow> v)"

text \<open>\<^verbatim>\<open>y >= b\<close> and \<^verbatim>\<open>y <= b\<close> where \<open>b\<close> may be \<^verbatim>\<open>NaN\<close>: a comparison with
  \<^verbatim>\<open>NaN\<close> is false.\<close>

definition num_ge :: "int \<Rightarrow> int option \<Rightarrow> bool" where
  "num_ge y b = (case b of None \<Rightarrow> False | Some v \<Rightarrow> v \<le> y)"

definition num_le :: "int \<Rightarrow> int option \<Rightarrow> bool" where
  "num_le y b = (case b of None \<Rightarrow> False | Some v \<Rightarrow> y \<le> v)"

subsection \<open>Sorting\<close>

text \<open>
  \<^verbatim>\<open>Array.prototype.sort(compare)\<close> is stable, and for a comparator that is consistent (a
  total preorder given by the sign of its result) the sorted array is determined by the
  language standard: it is what inserting the elements from the right gives, each new
  element in front of the first one it does not exceed. \<^verbatim>\<open>[...out]\<close> copies the array,
  so the argument is left as it was.
\<close>

fun insertBy :: "('a \<Rightarrow> 'a \<Rightarrow> int) \<Rightarrow> 'a \<Rightarrow> 'a list \<Rightarrow> 'a list" where
  "insertBy cmp x [] = [x]"
| "insertBy cmp x (y # ys) =
     (if cmp x y \<le> 0 then x # y # ys else y # insertBy cmp x ys)"

definition Array_sort :: "('a \<Rightarrow> 'a \<Rightarrow> int) \<Rightarrow> 'a list \<Rightarrow> 'a list" where
  "Array_sort cmp xs = foldr (insertBy cmp) xs []"

subsection \<open>The filtered list\<close>

text \<open>
  \<^verbatim>\<open>String.prototype.localeCompare\<close> depends on the collation of the host's locale; it
  is the parameter \<open>localeCompare\<close> of the functions that sort by title.
\<close>

definition filtered ::
  "(string \<Rightarrow> string \<Rightarrow> int) \<Rightarrow> doc list \<Rightarrow> string \<Rightarrow> string \<Rightarrow> string \<Rightarrow> string \<Rightarrow> doc list"
where
  "filtered localeCompare docs lang yearFrom yearTo sortOrder =
     (let out = docs;
          yf = parseInt (str_or yearFrom ''0'');
          yt = parseInt (str_or yearTo ''9999'');
          out = (if lang \<noteq> [] then filter (\<lambda>d. lang \<in> set (list_or (language d) [])) out
                 else out);
          out = filter (\<lambda>d. let y = num_or (first_publish_year d) 0
                           in num_ge y yf \<and> num_le y yt) out;
          out =
            (if sortOrder = ''title'' then
               Array_sort (\<lambda>a b. localeCompare (opt_str_or (title a) []) (opt_str_or (title b) [])) out
             else if sortOrder = ''year-asc'' then
               Array_sort (\<lambda>a b. num_or (first_publish_year a) 0 - num_or (first_publish_year b) 0) out
             else if sortOrder = ''year-desc'' then
               Array_sort (\<lambda>a b. num_or (first_publish_year b) 0 - num_or (first_publish_year a) 0) out
             else out)
      in out)"

subsection \<open>Pagination\<close>

text \<open>\<^verbatim>\<open>Array.prototype.slice(start, end)\<close> with integer arguments: a negative index
  counts from the end, and both are clamped to the array.\<close>

definition slice :: "'a list \<Rightarrow> int \<Rightarrow> int \<Rightarrow> 'a list" where
  "slice xs start stop =
     (let len = int (length xs);
          k = (if start < 0 then max (len + start) 0 else min start len);
          final = (if stop < 0 then max (len + stop) 0 else min stop len);
          count = max (final - k) 0
      in take (nat count) (drop (nat k) xs))"

definition totalPages :: "'a list \<Rightarrow> int" where
  "totalPages flt = max 1 \<lceil>real (length flt) / real PER_PAGE\<rceil>"

definition pageDocs :: "'a list \<Rightarrow> int \<Rightarrow> 'a list" where
  "pageDocs flt uiPage =
     (let start = (uiPage - 1) * int PER_PAGE
      in slice flt start (start + int PER_PAGE))"

subsection \<open>Favourites\<close>

text \<open>The object that \<^verbatim>\<open>toggleFav\<close> stores for a record: seven of its properties.\<close>

definition favourite :: "doc \<Rightarrow> doc" where
  "favourite doc =
     \<lparr>dunder_id = dunder_id doc, key = key doc, title = title doc,
      author_name = author_name doc, first_publish_year = first_publish_year doc,
      cover_i = cover_i doc, edition_key = None, language = None, subject = None,
      isbn = isbn doc\<rparr>"

definition toggleFav :: "doc list \<Rightarrow> doc \<Rightarrow> doc list" where
  "toggleFav favs doc =
     (let i = dunder_id doc;
          exists = find (\<lambda>x. dunder_id x = i) favs
      in if exists \<noteq> None then filter (\<lambda>x. dunder_id x \<noteq> i) favs
         else favs @ [favourite doc])"

definition isFav :: "doc list \<Rightarrow> doc \<Rightarrow> bool" where
  "isFav favs doc = list_ex (\<lambda>x. dunder_id x = dunder_id doc) favs"

subsection \<open>The component's state\<close>

record state =
  mode :: string
  query :: string
  docs :: "doc list"
  numFound :: nat
  apiPage :: nat
  loading :: bool
  error :: string
  uiPage :: int
  sortBy :: string
  lang :: string
  yearFrom :: string
  yearTo :: string
  showFav :: bool
  selected :: "doc option"
  favs :: "doc list"

text \<open>The state of the first render; \<open>stored\<close> is the list of favourites read from the
  browser's store.\<close>

definition initial :: "doc list \<Rightarrow> state" where
  "initial stored =
     \<lparr>mode = ''title'', query = '''', docs = [], numFound = 0, apiPage = 1, loading = False,
      error = '''', uiPage = 1, sortBy = ''relevance'', lang = '''', yearFrom = '''',
      yearTo = '''', showFav = False, selected = None, favs = stored\<rparr>"

definition resetResults :: "state \<Rightarrow> state" where
  "resetResults st = st\<lparr>docs := [], numFound := 0, apiPage := 1, uiPage := 1, error := ''''\<rparr>"

subsection \<open>fetchPage\<close>

text \<open>
  What the network gives for a request: \<^verbatim>\<open>fetch\<close> rejects with a message, or it
  resolves to a response with a status, whose body either fails to parse as JSON (with a
  message) or parses to an object of the shape the search API documents, \<^verbatim>\<open>docs\<close> and
  \<^verbatim>\<open>numFound\<close> either of which may be missing.
\<close>

record data =
  data_docs :: "doc list option"
  data_numFound :: "nat option"

datatype body = BadJson string | Json data

datatype fetch_result = Rejected string | Response nat body

text \<open>\<^verbatim>\<open>res.ok\<close>\<close>

definition ok :: "nat \<Rightarrow> bool" where
  "ok status = (200 \<le> status \<and> status \<le> 299)"

text \<open>The \<^verbatim>\<open>catch\<close> block followed by the \<^verbatim>\<open>finally\<close> block.\<close>

definition fetchPage_catch :: "string \<Rightarrow> state \<Rightarrow> state" where
  "fetchPage_catch message st =
     st\<lparr>error := str_or message ''Something went wrong'', loading := False\<rparr>"

text \<open>\<^verbatim>\<open>fetchPage\<close> up to its \<^verbatim>\<open>await fetch(url)\<close>.\<close>

definition fetchPage_begin :: "state \<Rightarrow> state" where
  "fetchPage_begin st = st\<lparr>loading := True, error := ''''\<rparr>"

text \<open>\<^verbatim>\<open>fetchPage\<close> from the moment the request has settled with result \<open>r\<close>.\<close>

definition fetchPage_settle :: "nat \<Rightarrow> fetch_result \<Rightarrow> state \<Rightarrow> state" where
  "fetchPage_settle p r st =
     (case r of
        Rejected message \<Rightarrow> fetchPage_catch message st
      | Response status b \<Rightarrow>
          if \<not> ok status then fetchPage_catch (''HTTP '' @ String_of_number status) st
          else
            (case b of
               BadJson message \<Rightarrow> fetchPage_catch message st
             | Json d \<Rightarrow>
                 (let newDocs = map (\<lambda>d. d\<lparr>dunder_id := key d\<rparr>) (list_or (data_docs d) [])
                  in st\<lparr>docs := mergeDocs (docs st) newDocs,
                        numFound := num_or (data_numFound d) (length newDocs),
                        apiPage := p,
                        loading := False\<rparr>)))"

text \<open>\<^verbatim>\<open>fetchPage(p)\<close> with nothing happening in between; \<open>net\<close> is what the network
  answers to a URL.\<close>

definition fetchPage :: "(string \<Rightarrow> fetch_result) \<Rightarrow> nat \<Rightarrow> state \<Rightarrow> state" where
  "fetchPage net p st =
     (let url = buildSearchURL (mode st) (trim (query st)) p
      in fetchPage_settle p (net url) (fetchPage_begin st))"

definition handleSearch :: "(string \<Rightarrow> fetch_result) \<Rightarrow> state \<Rightarrow> state" where
  "handleSearch net st =
     (if trim (query st) = [] then st else fetchPage net 1 (resetResults st))"

definition loadMore :: "(string \<Rightarrow> fetch_result) \<Rightarrow> state \<Rightarrow> state" where
  "loadMore net st = fetchPage net (apiPage st + 1) st"

subsection \<open>Events\<close>

text \<open>
  The handlers of the user interface and the settling of a request, as the events of a
  transition system. A search or a load starts a request; its result arrives as a later
  event, so that other events may come in between. Buttons that are disabled in some
  states only take events away.
\<close>

datatype event =
    SetMode string
  | SetQuery string
  | SetLang string
  | SetYearFrom string
  | SetYearTo string
  | SetSort string
  | Previous
  | Next
  | SubmitSearch
  | LoadMore
  | Settled nat fetch_result
  | ToggleFav doc
  | RemoveFav doc
  | SetShowFav bool
  | SetSelected "doc option"

definition visible :: "(string \<Rightarrow> string \<Rightarrow> int) \<Rightarrow> state \<Rightarrow> doc list" where
  "visible localeCompare st =
     filtered localeCompare (docs st) (lang st) (yearFrom st) (yearTo st) (sortBy st)"

fun step :: "(string \<Rightarrow> string \<Rightarrow> int) \<Rightarrow> state \<Rightarrow> event \<Rightarrow> state" where
  "step lc st (SetMode m) = st\<lparr>mode := m\<rparr>"
| "step lc st (SetQuery q) = st\<lparr>query := q\<rparr>"
| "step lc st (SetLang l) = st\<lparr>lang := l, uiPage := 1\<rparr>"
| "step lc st (SetYearFrom y) = st\<lparr>yearFrom := y, uiPage := 1\<rparr>"
| "step lc st (SetYearTo y) = st\<lparr>yearTo := y, uiPage := 1\<rparr>"
| "step lc st (SetSort s) = st\<lparr>sortBy := s, uiPage := 1\<rparr>"
| "step lc st Previous = st\<lparr>uiPage := max 1 (uiPage st - 1)\<rparr>"
| "step lc st Next = st\<lparr>uiPage := min (totalPages (visible lc st)) (uiPage st + 1)\<rparr>"
| "step lc st SubmitSearch =
     (if trim (query st) = [] then st else fetchPage_begin (resetResults st))"
| "step lc st LoadMore = fetchPage_begin st"
| "step lc st (Settled p r) = fetchPage_settle p r st"
| "step lc st (ToggleFav d) = st\<lparr>favs := toggleFav (favs st) d\<rparr>"
| "step lc st (RemoveFav d) = st\<lparr>favs := filter (\<lambda>x. dunder_id x \<noteq> dunder_id d) (favs st)\<rparr>"
| "step lc st (SetShowFav b) = st\<lparr>showFav := b\<rparr>"
| "step lc st (SetSelected d) = st\<lparr>selected := d\<rparr>"

definition run :: "(string \<Rightarrow> string \<Rightarrow> int) \<Rightarrow> doc list \<Rightarrow> event list \<Rightarrow> state" where
  "run lc stored es = foldl (step lc) (initial stored) es"

subsection \<open>The specification's wording\<close>

text \<open>
  The following definitions are not taken from the code: they say what the specification
  says, to be compared with what the code computes.

  Parameter selection: mode \<^verbatim>\<open>title\<close> gives the title parameter, \<^verbatim>\<open>author\<close> the author
  parameter, \<^verbatim>\<open>isbn\<close> the isbn parameter, \<^verbatim>\<open>subject\<close> the subject parameter, anything else
  the generic free-text parameter.
\<close>

definition spec_parameter :: "string \<Rightarrow> string" where
  "spec_parameter m =
     (if m = ''title'' then ''title''
      else if m = ''author'' then ''author''
      else if m = ''isbn'' then ''isbn''
      else if m = ''subject'' then ''subject''
      else ''q'')"

text \<open>
  A record passes the language filter if its language list contains the selected code, or
  if no language is selected.
\<close>

definition spec_language_pred :: "string option \<Rightarrow> doc \<Rightarrow> bool" where
  "spec_language_pred sel d =
     (case sel of
        None \<Rightarrow> True
      | Some c \<Rightarrow> c \<in> set (case language d of None \<Rightarrow> [] | Some ls \<Rightarrow> ls))"

text \<open>The publish year of a record, 0 if absent; its title, empty if absent.\<close>

definition spec_year :: "doc \<Rightarrow> int" where
  "spec_year d = (case first_publish_year d of None \<Rightarrow> 0 | Some y \<Rightarrow> y)"

definition spec_title :: "doc \<Rightarrow> string" where
  "spec_title d = (case title d of None \<Rightarrow> [] | Some t \<Rightarrow> t)"

text \<open>
  A year bound is the number typed into a number field, or nothing when the field is
  empty. The text of a number field is a decimal number: an optional minus sign, digits
  with an optional fraction (or a fraction alone), and an optional exponent. \<open>spec_number\<close>
  gives the number such a text denotes, and nothing for any other text.
\<close>

definition all_digits :: "string \<Rightarrow> bool" where
  "all_digits s = (s \<noteq> [] \<and> list_all isDigit s)"

definition numeral_value :: "string \<Rightarrow> nat" where
  "numeral_value s = foldl (\<lambda>a c. 10 * a + digitVal c) 0 s"

definition spec_number :: "string \<Rightarrow> rat option" where
  "spec_number s =
     (let neg = (s \<noteq> [] \<and> hd s = CHR ''-'');
          r = (if neg then tl s else s);
          mant = takeWhile (\<lambda>c. c \<noteq> CHR ''e'' \<and> c \<noteq> CHR ''E'') r;
          ex = dropWhile (\<lambda>c. c \<noteq> CHR ''e'' \<and> c \<noteq> CHR ''E'') r;
          ip = takeWhile (\<lambda>c. c \<noteq> CHR ''.'') mant;
          dot = dropWhile (\<lambda>c. c \<noteq> CHR ''.'') mant;
          fp = (if dot = [] then [] else tl dot);
          mant_ok = (list_all isDigit ip \<and> list_all isDigit fp \<and>
                     (if dot = [] then ip \<noteq> [] else fp \<noteq> []));
          es = (if ex = [] then [] else tl ex);
          eneg = (es \<noteq> [] \<and> hd es = CHR ''-'');
          ed = (if es \<noteq> [] \<and> (hd es = CHR ''-'' \<or> hd es = CHR ''+'') then tl es else es);
          ex_ok = (ex = [] \<or> all_digits ed);
          m = of_nat (numeral_value (ip @ fp)) / 10 ^ length fp;
          v = (if ex = [] then m
               else if eneg then m / 10 ^ numeral_value ed
               else m * 10 ^ numeral_value ed)
      in if mant_ok \<and> ex_ok then Some (if neg then - v else v) else None)"

text \<open>
  A record passes the year filter if its publish year falls within year-from (or 0) and
  year-to (or 9999), both included.
\<close>

definition spec_year_pred :: "rat option \<Rightarrow> rat option \<Rightarrow> doc \<Rightarrow> bool" where
  "spec_year_pred yf yt d =
     ((case yf of None \<Rightarrow> 0 | Some a \<Rightarrow> a) \<le> of_int (spec_year d) \<and>
      of_int (spec_year d) \<le> (case yt of None \<Rightarrow> 9999 | Some b \<Rightarrow> b))"

text \<open>
  What the text of a filter control stands for: nothing when it is empty, else the
  language code, respectively the number the text denotes.
\<close>

definition selected_language :: "string \<Rightarrow> string option" where
  "selected_language l = (if l = [] then None else Some l)"

definition year_bound :: "string \<Rightarrow> rat option" where
  "year_bound y = (if y = [] then None else spec_number y)"

text \<open>The texts that are empty or the numeral of an integer: digits, or a minus sign and
  digits.\<close>

definition integer_text :: "string \<Rightarrow> bool" where
  "integer_text s = (s = [] \<or> all_digits s \<or> (hd s = CHR ''-'' \<and> all_digits (tl s)))"

text \<open>
  A comparator is consistent when the signs of its results give a total preorder: it is
  positive one way exactly when it is negative the other way, and not exceeding is
  transitive.
\<close>

definition consistent :: "('a \<Rightarrow> 'a \<Rightarrow> int) \<Rightarrow> bool" where
  "consistent cmp =
     ((\<forall>a b. (0 < cmp a b) = (cmp b a < 0)) \<and>
      (\<forall>a b c. cmp a b \<le> 0 \<longrightarrow> cmp b c \<le> 0 \<longrightarrow> cmp a c \<le> 0))"

subsection \<open>Derived notions\<close>

text \<open>The condition that the two \<^verbatim>\<open>filter\<close> calls of \<open>filtered\<close> put on a record.\<close>

definition passes :: "string \<Rightarrow> string \<Rightarrow> string \<Rightarrow> doc \<Rightarrow> bool" where
  "passes lg yf yt d =
     ((lg = [] \<or> lg \<in> set (list_or (language d) [])) \<and>
      num_ge (num_or (first_publish_year d) 0) (parseInt (str_or yf ''0'')) \<and>
      num_le (num_or (first_publish_year d) 0) (parseInt (str_or yt ''9999'')))"

text \<open>What every reachable state satisfies: the accumulated records have distinct
  identifiers, and the local page number is one of the pages that exist.\<close>

definition invariant :: "(string \<Rightarrow> string \<Rightarrow> int) \<Rightarrow> state \<Rightarrow> bool" where
  "invariant lc st =
     (distinct (map dunder_id (docs st)) \<and>
      1 \<le> uiPage st \<and> uiPage st \<le> totalPages (visible lc st))"

subsection \<open>Values for examples\<close>

text \<open>Comparison of strings by their bytes, as an instance of \<open>localeCompare\<close>.\<close>

definition byteCompare :: "string \<Rightarrow> string \<Rightarrow> int" where
  "byteCompare a b = (if a < b then - 1 else if a = b then 0 else 1)"

definition book :: "string \<Rightarrow> string \<Rightarrow> int \<Rightarrow> doc" where
  "book k t y =
     \<lparr>dunder_id = Some k, key = Some k, title = Some t, author_name = None,
      first_publish_year = Some y, cover_i = None, edition_key = None,
      language = Some [''eng''], subject = None, isbn = None\<rparr>"

section \<open>Properties\<close>

subsection \<open>Properties of uniqueBy\<close>

lemma uniqueBy_filter_eq:
  "uniqueBy_filter seen k xs =
     filter (\<lambda>x. k x \<notin> seen) (uniqueBy_filter {} k xs)"
proof (induction xs arbitrary: seen)
  case Nil
  show ?case by simp
next
  case (Cons x xs)
  have a: "uniqueBy_filter (insert (k x) seen) k xs =
      filter (\<lambda>y. k y \<notin> insert (k x) seen) (uniqueBy_filter {} k xs)"
    by (rule Cons.IH)
  have b: "uniqueBy_filter {k x} k xs =
      filter (\<lambda>y. k y \<notin> {k x}) (uniqueBy_filter {} k xs)"
    by (rule Cons.IH)
  have c: "uniqueBy_filter seen k xs =
      filter (\<lambda>y. k y \<notin> seen) (uniqueBy_filter {} k xs)"
    by (rule Cons.IH)
  show ?case
  proof (cases "k x \<in> seen")
    case True
    have "filter (\<lambda>y. k y \<notin> seen) (filter (\<lambda>y. k y \<notin> {k x}) (uniqueBy_filter {} k xs)) =
        filter (\<lambda>y. k y \<notin> seen) (uniqueBy_filter {} k xs)"
      using True by (auto intro: filter_cong)
    with True b c show ?thesis by simp
  next
    case False
    have "filter (\<lambda>y. k y \<notin> seen) (filter (\<lambda>y. k y \<notin> {k x}) (uniqueBy_filter {} k xs)) =
        filter (\<lambda>y. k y \<notin> insert (k x) seen) (uniqueBy_filter {} k xs)"
      by (auto intro: filter_cong)
    with False a b show ?thesis by simp
  qed
qed

lemma uniqueBy_filter_keys_fresh:
  "x \<in> set (uniqueBy_filter seen k xs) \<Longrightarrow> k x \<notin> seen"
  by (induction xs arbitrary: seen) (auto split: if_splits)

lemma uniqueBy_filter_distinct: "distinct (map k (uniqueBy_filter seen k xs))"
proof (induction xs arbitrary: seen)
  case Nil
  show ?case by simp
next
  case (Cons x xs)
  have "k x \<notin> k ` set (uniqueBy_filter (insert (k x) seen) k xs)"
  proof
    assume "k x \<in> k ` set (uniqueBy_filter (insert (k x) seen) k xs)"
    then obtain y where y: "y \<in> set (uniqueBy_filter (insert (k x) seen) k xs)" "k y = k x"
      by auto
    from y(1) have "k y \<notin> insert (k x) seen"
      by (rule uniqueBy_filter_keys_fresh)
    with y(2) show False by simp
  qed
  with Cons.IH show ?case by simp
qed

lemma uniqueBy_filter_subseq: "subseq (uniqueBy_filter seen k xs) xs"
  by (induction xs arbitrary: seen) auto

lemma uniqueBy_filter_find:
  "find (\<lambda>x. k x = i) (uniqueBy_filter seen k xs) =
     (if i \<in> seen then None else find (\<lambda>x. k x = i) xs)"
proof (induction xs arbitrary: seen)
  case Nil
  show ?case by simp
next
  case (Cons x xs)
  show ?case
    by (cases "k x \<in> seen") (auto simp: Cons.IH)
qed

lemma uniqueBy_filter_keys:
  "k ` set (uniqueBy_filter seen k xs) = k ` set xs - seen"
proof (induction xs arbitrary: seen)
  case Nil
  show ?case by simp
next
  case (Cons x xs)
  show ?case
    by (cases "k x \<in> seen") (auto simp: Cons.IH)
qed

lemma uniqueBy_filter_id:
  "distinct (map k xs) \<Longrightarrow> k ` set xs \<inter> seen = {} \<Longrightarrow> uniqueBy_filter seen k xs = xs"
  by (induction xs arbitrary: seen) auto

lemma uniqueBy_filter_append:
  "uniqueBy_filter seen k (xs @ ys) =
     uniqueBy_filter seen k xs @ uniqueBy_filter (seen \<union> k ` set xs) k ys"
proof (induction xs arbitrary: seen)
  case Nil
  show ?case by simp
next
  case (Cons x xs)
  have eq1: "insert (k x) seen \<union> k ` set xs = seen \<union> k ` set (x # xs)"
    by auto
  show ?case
  proof (cases "k x \<in> seen")
    case True
    then have "seen \<union> k ` set (x # xs) = seen \<union> k ` set xs" by auto
    with True Cons.IH [of seen] show ?thesis by simp
  next
    case False
    with Cons.IH [of "insert (k x) seen"] eq1 show ?thesis by simp
  qed
qed

lemma uniqueBy_filter_covered:
  "k ` set ys \<subseteq> seen \<Longrightarrow> uniqueBy_filter seen k ys = []"
  by (induction ys arbitrary: seen) auto

lemma mergeDocs_prefix:
  "distinct (map dunder_id prev) \<Longrightarrow>
   mergeDocs prev new = prev @ uniqueBy_filter (dunder_id ` set prev) dunder_id new"
  by (simp add: mergeDocs_def uniqueBy_def uniqueBy_filter_append uniqueBy_filter_id)

lemma mergeDocs_distinct: "distinct (map dunder_id (mergeDocs prev new))"
  by (simp add: mergeDocs_def uniqueBy_def uniqueBy_filter_distinct)

lemma upt_0_Suc_shift: "[0..<Suc n] = 0 # map Suc [0..<n]"
  by (simp only: upt_conv_Cons [OF zero_less_Suc] map_Suc_upt)

lemma first_positions_shift:
  "map ((!) (x # xs))
     (filter (\<lambda>i. k ((x # xs) ! i) \<notin> seen \<union> k ` set (take i (x # xs))) (map Suc js)) =
   map ((!) xs)
     (filter (\<lambda>i. k (xs ! i) \<notin> insert (k x) seen \<union> k ` set (take i xs)) js)"
  by (induction js) simp_all

lemma uniqueBy_filter_positions:
  "uniqueBy_filter seen k xs =
     map ((!) xs)
       (filter (\<lambda>i. k (xs ! i) \<notin> seen \<union> k ` set (take i xs)) [0..<length xs])"
proof (induction xs arbitrary: seen)
  case Nil
  show ?case by simp
next
  case (Cons x xs)
  define Q where "Q = (\<lambda>i. k ((x # xs) ! i) \<notin> seen \<union> k ` set (take i (x # xs)))"
  define R where "R = (\<lambda>i. k (xs ! i) \<notin> insert (k x) seen \<union> k ` set (take i xs))"
  have idx: "[0..<length (x # xs)] = 0 # map Suc [0..<length xs]"
    by (simp only: list.size upt_0_Suc_shift add_0 One_nat_def add_Suc_right add_0_right)
  have shift: "map ((!) (x # xs)) (filter Q (map Suc js)) = map ((!) xs) (filter R js)" for js
    unfolding Q_def R_def by (rule first_positions_shift)
  have q0: "Q 0 = (k x \<notin> seen)"
    by (simp add: Q_def)
  have rhs: "map ((!) (x # xs)) (filter Q [0..<length (x # xs)]) =
      (if k x \<notin> seen then [x] else []) @ map ((!) xs) (filter R [0..<length xs])"
    unfolding idx by (simp add: q0 shift)
  have ih: "uniqueBy_filter (insert (k x) seen) k xs = map ((!) xs) (filter R [0..<length xs])"
    unfolding R_def by (rule Cons.IH)
  have "uniqueBy_filter seen k (x # xs) = map ((!) (x # xs)) (filter Q [0..<length (x # xs)])"
  proof (cases "k x \<in> seen")
    case True
    then have "insert (k x) seen = seen" by (rule insert_absorb)
    with ih have "uniqueBy_filter seen k xs = map ((!) xs) (filter R [0..<length xs])"
      by simp
    with True show ?thesis
      unfolding rhs by simp
  next
    case False
    with ih show ?thesis
      unfolding rhs by simp
  qed
  then show ?case
    unfolding Q_def .
qed

lemma mergeDocs_positions:
  "mergeDocs prev newDocs =
     map ((!) (prev @ newDocs))
       (filter (\<lambda>i. dunder_id ((prev @ newDocs) ! i) \<notin>
            dunder_id ` set (take i (prev @ newDocs)))
          [0..<length (prev @ newDocs)])"
  unfolding mergeDocs_def uniqueBy_def
  using uniqueBy_filter_positions [of "{}" dunder_id "prev @ newDocs"] by simp

text \<open>
  C1. Merging a fetched batch into the accumulated list keeps, of the old list followed by
  the batch, exactly the records at the positions where an identifier occurs for the first
  time, in the order of these positions: the record at position \<open>i\<close> is kept when none of
  the \<open>i\<close> records before it has its identifier. So no two records of the result share an
  identifier, for every identifier the record found in the result is the first record with
  that identifier in the input (first occurrence wins), and the kept records stand in the
  order in which they stood in the input.
\<close>

theorem merge_dedup_first_wins:
  "mergeDocs prev newDocs =
     map ((!) (prev @ newDocs))
       (filter (\<lambda>i. dunder_id ((prev @ newDocs) ! i) \<notin>
            dunder_id ` set (take i (prev @ newDocs)))
          [0..<length (prev @ newDocs)]) \<and>
   distinct (map dunder_id (mergeDocs prev newDocs)) \<and>
   subseq (mergeDocs prev newDocs) (prev @ newDocs) \<and>
   find (\<lambda>x. dunder_id x = i) (mergeDocs prev newDocs) =
     find (\<lambda>x. dunder_id x = i) (prev @ newDocs) \<and>
   dunder_id ` set (mergeDocs prev newDocs) = dunder_id ` set (prev @ newDocs)"
proof (intro conjI)
  show "mergeDocs prev newDocs =
     map ((!) (prev @ newDocs))
       (filter (\<lambda>i. dunder_id ((prev @ newDocs) ! i) \<notin>
            dunder_id ` set (take i (prev @ newDocs)))
          [0..<length (prev @ newDocs)])"
    by (rule mergeDocs_positions)
  show "distinct (map dunder_id (mergeDocs prev newDocs))"
    by (rule mergeDocs_distinct)
  show "subseq (mergeDocs prev newDocs) (prev @ newDocs)"
    unfolding mergeDocs_def uniqueBy_def by (rule uniqueBy_filter_subseq)
  show "find (\<lambda>x. dunder_id x = i) (mergeDocs prev newDocs) =
     find (\<lambda>x. dunder_id x = i) (prev @ newDocs)"
    unfolding mergeDocs_def uniqueBy_def by (simp add: uniqueBy_filter_find)
  show "dunder_id ` set (mergeDocs prev newDocs) = dunder_id ` set (prev @ newDocs)"
    unfolding mergeDocs_def uniqueBy_def by (simp add: uniqueBy_filter_keys)
qed

text \<open>
  A record fetched again keeps the place of its first occurrence: merging \<open>[a, b]\<close> with
  \<open>[a]\<close> gives \<open>[a, b]\<close>.
\<close>

lemma merge_refetched_first:
  "mergeDocs [book ''1'' ''A'' 0, book ''2'' ''B'' 0] [book ''1'' ''A'' 0] =
     [book ''1'' ''A'' 0, book ''2'' ''B'' 0]"
  by (simp add: mergeDocs_def uniqueBy_def book_def)

text \<open>The scenario of the specification: identifiers 1, 2 merged with 2, 3.\<close>

lemma merge_scenario:
  "mergeDocs [book ''1'' ''A'' 0, book ''2'' ''B'' 0] [book ''2'' ''B'' 0, book ''3'' ''C'' 0] =
     [book ''1'' ''A'' 0, book ''2'' ''B'' 0, book ''3'' ''C'' 0]"
  by (simp add: mergeDocs_def uniqueBy_def book_def)


text \<open>
  C10. When the accumulated list has no duplicate identifiers and every record of the
  batch carries an identifier that already occurs in it, merging leaves the list as it
  was. Merging the same batch a second time never changes the result of the first merge.
\<close>

theorem merge_known_batch_unchanged:
  assumes "distinct (map dunder_id prev)"
    and "dunder_id ` set newDocs \<subseteq> dunder_id ` set prev"
  shows "mergeDocs prev newDocs = prev \<and>
    mergeDocs (mergeDocs prev batch) batch = mergeDocs prev batch"
proof
  show "mergeDocs prev newDocs = prev"
    using assms by (simp add: mergeDocs_prefix uniqueBy_filter_covered)
  have d: "distinct (map dunder_id (mergeDocs prev batch))"
    by (rule mergeDocs_distinct)
  have "dunder_id ` set batch \<subseteq> dunder_id ` set (mergeDocs prev batch)"
    by (auto simp: mergeDocs_def uniqueBy_def uniqueBy_filter_keys)
  then show "mergeDocs (mergeDocs prev batch) batch = mergeDocs prev batch"
    using d by (simp add: mergeDocs_prefix uniqueBy_filter_covered)
qed

theorem merge_known_batch_unchanged_witness:
  "distinct (map dunder_id [book ''/works/OL1W'' ''Dune'' 1965, book ''/works/OL2W'' ''Emma'' 1815]) \<and>
   dunder_id ` set [book ''/works/OL2W'' ''Emma'' 1815] \<subseteq>
     dunder_id ` set [book ''/works/OL1W'' ''Dune'' 1965, book ''/works/OL2W'' ''Emma'' 1815] \<and>
   mergeDocs [book ''/works/OL1W'' ''Dune'' 1965, book ''/works/OL2W'' ''Emma'' 1815]
       [book ''/works/OL2W'' ''Emma'' 1815] =
     [book ''/works/OL1W'' ''Dune'' 1965, book ''/works/OL2W'' ''Emma'' 1815]"
proof -
  have h1: "distinct (map dunder_id
      [book ''/works/OL1W'' ''Dune'' 1965, book ''/works/OL2W'' ''Emma'' 1815])"
    by (simp add: book_def)
  have h2: "dunder_id ` set [book ''/works/OL2W'' ''Emma'' 1815] \<subseteq>
      dunder_id ` set [book ''/works/OL1W'' ''Dune'' 1965, book ''/works/OL2W'' ''Emma'' 1815]"
    by (simp add: book_def)
  from merge_known_batch_unchanged [OF h1 h2] h1 h2 show ?thesis
    by blast
qed

subsection \<open>Pagination\<close>

lemma neg_div20: "- ((- a) div 20) = (a + 19) div (20::int)"
  by linarith

lemma ceil_div: "\<lceil>real n / real PER_PAGE\<rceil> = int ((n + 19) div 20)"
proof -
  have "\<lceil>real n / real PER_PAGE\<rceil> = \<lceil>real_of_int (int n) / real_of_int 20\<rceil>"
    by (simp add: PER_PAGE_def)
  also have "\<dots> = - ((- int n) div 20)"
    by (simp only: ceiling_divide_eq_div)
  also have "\<dots> = (int n + 19) div 20"
    by (rule neg_div20)
  also have "\<dots> = int ((n + 19) div 20)"
    by (simp add: zdiv_int)
  finally show ?thesis .
qed

lemma ceil20_exact:
  assumes "n mod 20 = 0"
  shows "(n + 19) div 20 = n div (20::nat)"
proof (rule div_nat_eqI)
  define q where "q = n div 20"
  have "q * 20 + n mod 20 = n" unfolding q_def by (rule div_mult_mod_eq)
  then have "n = q * 20" using assms by linarith
  then show "20 * q \<le> n + 19" and "n + 19 < 20 * Suc q" by simp_all
qed

lemma ceil20_inexact:
  assumes "n mod 20 \<noteq> 0"
  shows "(n + 19) div 20 = n div (20::nat) + 1"
proof (rule div_nat_eqI)
  define q r where "q = n div 20" and "r = n mod 20"
  have "q * 20 + r = n" unfolding q_def r_def by (rule div_mult_mod_eq)
  moreover have "r < 20" and "0 < r"
    using assms by (simp_all add: r_def)
  ultimately have "n = q * 20 + r" and "r < 20" and "0 < r"
    by simp_all
  then show "20 * (q + 1) \<le> n + 19" and "n + 19 < 20 * Suc (q + 1)" by simp_all
qed

lemma totalPages_div: "totalPages flt = max 1 (int ((length flt + 19) div 20))"
  by (simp add: totalPages_def ceil_div)

lemma slice_nonneg:
  assumes "0 \<le> a" and "0 \<le> n"
  shows "slice xs a (a + n) = take (nat n) (drop (nat a) xs)"
proof (cases "a \<le> int (length xs)")
  case True
  then have k: "min a (int (length xs)) = a" by simp
  have "take (nat (max (min (a + n) (int (length xs)) - a) 0)) (drop (nat a) xs) =
      take (nat n) (drop (nat a) xs)"
  proof (cases "a + n \<le> int (length xs)")
    case True
    then show ?thesis using assms by simp
  next
    case False
    then have "min (a + n) (int (length xs)) = int (length xs)" by simp
    moreover have "length (drop (nat a) xs) = nat (int (length xs) - a)"
      using assms by (simp add: nat_diff_distrib')
    moreover have "nat (int (length xs) - a) \<le> nat n"
      using False by linarith
    ultimately show ?thesis using True by simp
  qed
  with assms k show ?thesis
    by (simp add: slice_def Let_def)
next
  case False
  then have "length xs \<le> nat a" by linarith
  then have "drop (nat a) xs = []" by simp
  then show ?thesis using assms False by (simp add: slice_def Let_def)
qed

lemma pageDocs_take_drop:
  assumes "1 \<le> k"
  shows "pageDocs flt k = take PER_PAGE (drop (nat (k - 1) * PER_PAGE) flt)"
proof -
  have "pageDocs flt k = take (nat (int PER_PAGE)) (drop (nat ((k - 1) * int PER_PAGE)) flt)"
    unfolding pageDocs_def Let_def using assms by (intro slice_nonneg) simp_all
  moreover have "nat ((k - 1) * int PER_PAGE) = nat (k - 1) * PER_PAGE"
    using assms by (simp add: nat_mult_distrib)
  ultimately show ?thesis by simp
qed

lemma pageDocs_length:
  assumes "1 \<le> k"
  shows "length (pageDocs flt k) = min PER_PAGE (length flt - nat (k - 1) * PER_PAGE)"
  by (simp add: pageDocs_take_drop [OF assms] min.commute)

lemma last_page_length:
  "length (pageDocs flt (totalPages flt)) =
     (if flt = [] then 0
      else if length flt mod PER_PAGE = 0 then PER_PAGE else length flt mod PER_PAGE)"
proof -
  define n where "n = length flt"
  have tp: "1 \<le> totalPages flt" by (simp add: totalPages_def)
  have len: "length (pageDocs flt (totalPages flt)) =
      min 20 (n - nat (totalPages flt - 1) * 20)"
    by (simp add: pageDocs_length [OF tp] PER_PAGE_def n_def)
  have t: "nat (totalPages flt - 1) = (if n = 0 then 0 else (n + 19) div 20 - 1)"
    unfolding totalPages_div n_def [symmetric] by (auto simp: max_def)
  show ?thesis
  proof (cases "n = 0")
    case True
    then show ?thesis using len n_def by simp
  next
    case False
    have e0: "n mod 20 = 0 \<Longrightarrow> (n + 19) div 20 = n div 20"
      by (rule ceil20_exact)
    have e1: "n mod 20 \<noteq> 0 \<Longrightarrow> (n + 19) div 20 = n div 20 + 1"
      by (rule ceil20_inexact)
    have m: "n = n div 20 * 20 + n mod 20"
      by simp
    have "min 20 (n - ((n + 19) div 20 - 1) * 20) = (if n mod 20 = 0 then 20 else n mod 20)"
    proof (cases "n mod 20 = 0")
      case True
      with False m have q: "n = n div 20 * 20" "0 < n div 20" by auto
      then obtain q' where q': "n div 20 = Suc q'"
        by (cases "n div 20") auto
      with q(1) have "n = Suc q' * 20" by simp
      then have "n - q' * 20 = 20" by simp
      with q' have "n - (n div 20 - 1) * 20 = 20" by simp
      with True e0 show ?thesis by simp
    next
      case r: False
      have "n - n div 20 * 20 = n mod 20"
        by (simp add: minus_div_mult_eq_mod)
      moreover have "n mod 20 < 20" by simp
      ultimately show ?thesis using r e1 by simp
    qed
    then show ?thesis using False len t n_def by (auto simp: PER_PAGE_def)
  qed
qed

lemma full_pages:
  assumes "1 \<le> k" and "k < totalPages flt"
  shows "length (pageDocs flt k) = PER_PAGE"
proof -
  define t where "t = (length flt + 19) div 20"
  have "k < int t"
    using assms by (simp add: totalPages_div max_def t_def split: if_splits)
  with assms(1) have "nat k + 1 \<le> t" by linarith
  then have "(nat k + 1) * 20 \<le> length flt + 19"
    unfolding t_def by (simp add: less_eq_div_iff_mult_less_eq)
  then have "nat k * 20 \<le> length flt" by simp
  moreover have "nat k = nat (k - 1) + 1" using assms by simp
  ultimately have "20 \<le> length flt - nat (k - 1) * 20" by simp
  then show ?thesis
    by (simp add: pageDocs_length [OF assms(1)] PER_PAGE_def)
qed

lemma pages_beyond:
  assumes "totalPages flt < k"
  shows "pageDocs flt k = []"
proof -
  define t where "t = (length flt + 19) div 20"
  have k1: "1 \<le> k" using assms by (simp add: totalPages_def)
  have "int t \<le> k - 1"
    using assms by (simp add: totalPages_div t_def)
  with k1 have "t < nat (k - 1) + 1" by linarith
  then have "length flt + 19 < (nat (k - 1) + 1) * 20"
    unfolding t_def by (simp only: div_less_iff_less_mult zero_less_numeral)
  then have "length flt \<le> nat (k - 1) * 20" by simp
  then show ?thesis
    by (simp add: pageDocs_take_drop [OF k1] PER_PAGE_def)
qed

text \<open>
  C2 (as amended). The number of pages is \<open>ceil(N / P)\<close> for a non-empty filtered list and
  1 for the empty one. Page \<open>k\<close> (from 1) is the slice of at most \<open>P\<close> entries that starts
  at \<open>(k - 1) * P\<close>: \<open>P\<close> entries on a page before the last one, \<open>N mod P\<close> entries (\<open>P\<close> when
  that is zero) on the last page of a non-empty list, and none on the single page of the
  empty list or on a page past the last one.
\<close>

theorem local_pagination:
  assumes "1 \<le> k"
  shows "totalPages flt = (if flt = [] then 1 else \<lceil>real (length flt) / real PER_PAGE\<rceil>) \<and>
    pageDocs flt k = take PER_PAGE (drop (nat (k - 1) * PER_PAGE) flt) \<and>
    length (pageDocs flt k) \<le> PER_PAGE \<and>
    length (pageDocs flt k) =
      (if k < totalPages flt then PER_PAGE
       else if totalPages flt < k \<or> flt = [] then 0
       else if length flt mod PER_PAGE = 0 then PER_PAGE
       else length flt mod PER_PAGE)"
proof (intro conjI)
  show "totalPages flt = (if flt = [] then 1 else \<lceil>real (length flt) / real PER_PAGE\<rceil>)"
  proof (cases "flt = []")
    case True
    then show ?thesis by (simp add: totalPages_def)
  next
    case False
    then have "1 * 20 \<le> length flt + 19"
      by (cases flt) simp_all
    then have "1 \<le> (length flt + 19) div 20"
      by (simp only: less_eq_div_iff_mult_less_eq zero_less_numeral)
    then show ?thesis using False by (simp add: totalPages_def ceil_div)
  qed
  show "pageDocs flt k = take PER_PAGE (drop (nat (k - 1) * PER_PAGE) flt)"
    using assms by (rule pageDocs_take_drop)
  show "length (pageDocs flt k) \<le> PER_PAGE"
    by (simp add: pageDocs_length [OF assms])
  show "length (pageDocs flt k) =
      (if k < totalPages flt then PER_PAGE
       else if totalPages flt < k \<or> flt = [] then 0
       else if length flt mod PER_PAGE = 0 then PER_PAGE
       else length flt mod PER_PAGE)"
  proof (cases "k < totalPages flt")
    case True
    with assms show ?thesis by (simp add: full_pages)
  next
    case nl: False
    show ?thesis
    proof (cases "totalPages flt < k")
      case True
      then show ?thesis using nl by (simp add: pages_beyond)
    next
      case False
      with nl have "k = totalPages flt" by simp
      then show ?thesis using last_page_length [of flt] by simp
    qed
  qed
qed

theorem local_pagination_witness:
  "1 \<le> (3::int) \<and> totalPages [0..<45::nat] = 3 \<and>
   pageDocs [0..<45::nat] 3 = [40, 41, 42, 43, 44] \<and>
   length (pageDocs [0..<45::nat] 3) = 45 mod PER_PAGE"
proof -
  have h: "1 \<le> (3::int)" by simp
  note t = local_pagination [OF h, of "[0..<45::nat]"]
  have e: "take PER_PAGE (drop (nat (3 - 1) * PER_PAGE) [0..<45::nat]) = [40, 41, 42, 43, 44]"
    by code_simp
  have tp: "totalPages [0..<45::nat] = 3"
    by (simp add: totalPages_div)
  have m: "45 mod PER_PAGE = 5"
    by (simp add: PER_PAGE_def)
  from t e tp m h show ?thesis by simp
qed

text \<open>
  The claim as stated gives \<open>ceil(0 / P) = 0\<close> pages for the empty list; the code gives one.
\<close>

theorem local_pagination_counterexample:
  "totalPages ([] :: doc list) \<noteq> \<lceil>real (length ([] :: doc list)) / real PER_PAGE\<rceil>"
  by (simp add: totalPages_def)

subsection \<open>Favourites\<close>

lemma toggleFav_cases:
  "toggleFav fs d =
     (if dunder_id d \<in> dunder_id ` set fs then filter (\<lambda>x. dunder_id x \<noteq> dunder_id d) fs
      else fs @ [favourite d])"
proof -
  have "(find (\<lambda>x. dunder_id x = dunder_id d) fs \<noteq> None) = (dunder_id d \<in> dunder_id ` set fs)"
    by (auto simp: find_None_iff intro: rev_image_eqI)
  then show ?thesis by (simp add: toggleFav_def Let_def)
qed

lemma favourite_id: "dunder_id (favourite d) = dunder_id d"
  by (simp add: favourite_def)

text \<open>
  C3 (as amended). \<open>toggleFav\<close> appends the reduced projection of the record when no
  favourite has its identifier, and removes every favourite with that identifier when one
  has. Toggling twice gives the original list back when the record was not a favourite;
  when it was, the result is the original list without the favourites of that identifier,
  followed by the record's projection.
\<close>

theorem toggleFav_twice:
  "toggleFav fs d =
     (if dunder_id d \<in> dunder_id ` set fs then filter (\<lambda>x. dunder_id x \<noteq> dunder_id d) fs
      else fs @ [favourite d]) \<and>
   toggleFav (toggleFav fs d) d =
     (if dunder_id d \<in> dunder_id ` set fs
      then filter (\<lambda>x. dunder_id x \<noteq> dunder_id d) fs @ [favourite d]
      else fs)"
proof (cases "dunder_id d \<in> dunder_id ` set fs")
  case True
  have "dunder_id d \<notin> dunder_id ` set (filter (\<lambda>x. dunder_id x \<noteq> dunder_id d) fs)"
    by auto
  then have "toggleFav (filter (\<lambda>x. dunder_id x \<noteq> dunder_id d) fs) d =
      filter (\<lambda>x. dunder_id x \<noteq> dunder_id d) fs @ [favourite d]"
    by (simp only: toggleFav_cases if_False)
  with True show ?thesis by (simp add: toggleFav_cases [of fs])
next
  case False
  then have "\<And>x. x \<in> set fs \<Longrightarrow> dunder_id x \<noteq> dunder_id d"
    by (metis imageI)
  then have "filter (\<lambda>x. dunder_id x \<noteq> dunder_id d) fs = fs"
    by (simp add: filter_id_conv)
  moreover have "dunder_id d \<in> dunder_id ` set (fs @ [favourite d])"
    by (simp add: favourite_id)
  then have "toggleFav (fs @ [favourite d]) d =
      filter (\<lambda>x. dunder_id x \<noteq> dunder_id d) (fs @ [favourite d])"
    by (simp only: toggleFav_cases if_True)
  ultimately show ?thesis using False
    by (simp add: toggleFav_cases [of fs] favourite_id)
qed

theorem toggleFav_twice_witness:
  "toggleFav (toggleFav [favourite (book ''/works/OL2W'' ''Emma'' 1815)]
      (book ''/works/OL1W'' ''Dune'' 1965)) (book ''/works/OL1W'' ''Dune'' 1965) =
     [favourite (book ''/works/OL2W'' ''Emma'' 1815)]"
proof -
  have n: "dunder_id (book ''/works/OL1W'' ''Dune'' 1965) \<notin>
      dunder_id ` set [favourite (book ''/works/OL2W'' ''Emma'' 1815)]"
    by (simp add: book_def favourite_def)
  from toggleFav_twice [of "[favourite (book ''/works/OL2W'' ''Emma'' 1815)]"
      "book ''/works/OL1W'' ''Dune'' 1965"]
  have "toggleFav (toggleFav [favourite (book ''/works/OL2W'' ''Emma'' 1815)]
      (book ''/works/OL1W'' ''Dune'' 1965)) (book ''/works/OL1W'' ''Dune'' 1965) =
     (if dunder_id (book ''/works/OL1W'' ''Dune'' 1965) \<in>
        dunder_id ` set [favourite (book ''/works/OL2W'' ''Emma'' 1815)]
      then filter (\<lambda>x. dunder_id x \<noteq> dunder_id (book ''/works/OL1W'' ''Dune'' 1965))
        [favourite (book ''/works/OL2W'' ''Emma'' 1815)] @
        [favourite (book ''/works/OL1W'' ''Dune'' 1965)]
      else [favourite (book ''/works/OL2W'' ''Emma'' 1815)])"
    by (rule conjunct2)
  also have "\<dots> = [favourite (book ''/works/OL2W'' ''Emma'' 1815)]"
    using n by (simp only: if_False)
  finally show ?thesis .
qed

text \<open>
  With the record already a favourite and not the last one, two toggles move it to the end:
  the list is not the original one.
\<close>

theorem toggleFav_twice_counterexample:
  "toggleFav (toggleFav [favourite (book ''/works/OL1W'' ''Dune'' 1965),
        favourite (book ''/works/OL2W'' ''Emma'' 1815)]
      (book ''/works/OL1W'' ''Dune'' 1965)) (book ''/works/OL1W'' ''Dune'' 1965) \<noteq>
     [favourite (book ''/works/OL1W'' ''Dune'' 1965),
      favourite (book ''/works/OL2W'' ''Emma'' 1815)]"
  by (simp add: toggleFav_cases book_def favourite_def)

subsection \<open>buildSearchURL\<close>

lemma buildSearchParams_eq:
  "buildSearchParams m q p =
     [(if m = ''title'' then ''title'' else if m = ''author'' then ''author''
       else if m = ''isbn'' then ''isbn'' else if m = ''subject'' then ''subject'' else ''q'', q),
      (''page'', String_of_number p),
      (''fields'',
       ''key,title,author_name,first_publish_year,cover_i,edition_key,language,subject,isbn''),
      (''limit'', ''100'')]"
  by (simp add: buildSearchParams_def search_fields_def)

lemma urlencode_names:
  "urlencode ''title'' = ''title''" "urlencode ''author'' = ''author''"
  "urlencode ''isbn'' = ''isbn''" "urlencode ''subject'' = ''subject''"
  "urlencode ''q'' = ''q''" "urlencode ''page'' = ''page''"
  "urlencode ''fields'' = ''fields''" "urlencode ''limit'' = ''limit''"
  "urlencode ''100'' = ''100''"
  "urlencode ''key,title,author_name,first_publish_year,cover_i,edition_key,language,subject,isbn'' =
    ''key%2Ctitle%2Cauthor_name%2Cfirst_publish_year%2Ccover_i%2Cedition_key%2Clanguage%2Csubject%2Cisbn''"
  by code_simp+

lemma digitChar_plain_upto:
  "list_all (\<lambda>n. urlencode_byte (digitChar n) = [digitChar n]) [0..<10]"
  by code_simp

lemma digitChar_plain: "n < 10 \<Longrightarrow> urlencode_byte (digitChar n) = [digitChar n]"
  using digitChar_plain_upto by (simp add: list_all_iff)

lemma urlencode_append: "urlencode (a @ b) = urlencode a @ urlencode b"
  by (simp add: urlencode_def)

lemma urlencode_number: "urlencode (String_of_number n) = String_of_number n"
proof (induction n rule: String_of_number.induct)
  case (1 n)
  show ?case
  proof (cases "n < 10")
    case True
    then show ?thesis
      by (subst (1 2) String_of_number.simps) (simp add: urlencode_def digitChar_plain)
  next
    case False
    have m: "n mod 10 < 10" by simp
    have "urlencode [digitChar (n mod 10)] = [digitChar (n mod 10)]"
      using digitChar_plain [OF m] by (simp add: urlencode_def)
    with False 1 show ?thesis
      by (subst (1 2) String_of_number.simps) (simp add: urlencode_append)
  qed
qed

lemma hexDigit_upto:
  "list_all (\<lambda>n. hexDigit n \<noteq> CHR ''&'' \<and> hexDigit n \<noteq> CHR ''='') [0..<16]"
  by code_simp

lemma hexDigit_no_separator:
  "n < 16 \<Longrightarrow> hexDigit n \<noteq> CHR ''&'' \<and> hexDigit n \<noteq> CHR ''=''"
  using hexDigit_upto by (simp add: list_all_iff)

lemma separators_not_plain: "\<not> urlencode_plain CHR ''&''" "\<not> urlencode_plain CHR ''=''"
  by code_simp+

lemma urlencode_byte_no_separator:
  "CHR ''&'' \<notin> set (urlencode_byte c) \<and> CHR ''='' \<notin> set (urlencode_byte c)"
proof -
  have d: "of_char c div 16 < (16::nat)"
  proof -
    have "of_char c < (256::nat)" by simp
    then have "of_char c < (16::nat) * 16" by simp
    then show ?thesis by (rule less_mult_imp_div_less)
  qed
  have m: "of_char c mod 16 < (16::nat)" by simp
  have p: "urlencode_plain c \<Longrightarrow> c \<noteq> CHR ''&'' \<and> c \<noteq> CHR ''=''"
    using separators_not_plain by auto
  show ?thesis
    using hexDigit_no_separator [OF d] hexDigit_no_separator [OF m] p
    by (auto simp: urlencode_byte_def)
qed

lemma urlencode_no_separator:
  "CHR ''&'' \<notin> set (urlencode s) \<and> CHR ''='' \<notin> set (urlencode s)"
  using urlencode_byte_no_separator by (induction s) (auto simp: urlencode_def)

lemma spec_parameter_plain: "urlencode (spec_parameter m) = spec_parameter m"
  by (simp add: spec_parameter_def urlencode_names)

lemma spec_parameter_hd: "spec_parameter m \<noteq> [] \<and> hd (spec_parameter m) \<noteq> CHR ''?''"
  by (simp add: spec_parameter_def)

lemma buildSearchParams_spec:
  "buildSearchParams m q p =
     [(spec_parameter m, q), (''page'', String_of_number p),
      (''fields'',
       ''key,title,author_name,first_publish_year,cover_i,edition_key,language,subject,isbn''),
      (''limit'', ''100'')]"
  by (simp add: buildSearchParams_eq spec_parameter_def)

text \<open>
  C4. Whatever the mode, the query and the page number, the parameters of the built URL are,
  in this order: the one search parameter that the mode selects (title, author, isbn,
  subject, or q for any other mode) with the query as its value, the page number, the fixed
  list of fields and the fixed limit; no second search parameter occurs. The URL is the
  address of the search endpoint followed by these parameters in their URL encoding, and
  the encoded query contains neither \<^verbatim>\<open>&\<close> nor \<^verbatim>\<open>=\<close>, so that it cannot start another
  parameter.
\<close>

theorem search_url_parameters:
  "filter (\<lambda>p. fst p \<in> {''title'', ''author'', ''isbn'', ''subject'', ''q''})
       (buildSearchParams m q p) = [(spec_parameter m, q)] \<and>
   map fst (buildSearchParams m q p) = [spec_parameter m, ''page'', ''fields'', ''limit''] \<and>
   map_of (buildSearchParams m q p) ''page'' = Some (String_of_number p) \<and>
   map_of (buildSearchParams m q p) ''fields'' =
     Some ''key,title,author_name,first_publish_year,cover_i,edition_key,language,subject,isbn'' \<and>
   map_of (buildSearchParams m q p) ''limit'' = Some ''100'' \<and>
   buildSearchURL m q p =
     ''https://openlibrary.org/search.json?'' @ spec_parameter m @ ''='' @ urlencode q @
     ''&page='' @ String_of_number p @
     ''&fields=key%2Ctitle%2Cauthor_name%2Cfirst_publish_year%2Ccover_i%2Cedition_key%2Clanguage%2Csubject%2Cisbn'' @
     ''&limit=100'' \<and>
   CHR ''&'' \<notin> set (urlencode q) \<and> CHR ''='' \<notin> set (urlencode q)"
proof (intro conjI)
  show "CHR ''&'' \<notin> set (urlencode q)" and "CHR ''='' \<notin> set (urlencode q)"
    by (simp_all add: urlencode_no_separator)
  have in5: "spec_parameter m \<in> {''title'', ''author'', ''isbn'', ''subject'', ''q''}"
    by (simp add: spec_parameter_def)
  have out: "''page'' \<notin> {''title'', ''author'', ''isbn'', ''subject'', ''q''}"
    "''fields'' \<notin> {''title'', ''author'', ''isbn'', ''subject'', ''q''}"
    "''limit'' \<notin> {''title'', ''author'', ''isbn'', ''subject'', ''q''}"
    by simp_all
  have ne: "spec_parameter m \<noteq> ''page''" "spec_parameter m \<noteq> ''fields''"
    "spec_parameter m \<noteq> ''limit''"
    by (simp_all add: spec_parameter_def)
  show "filter (\<lambda>p. fst p \<in> {''title'', ''author'', ''isbn'', ''subject'', ''q''})
       (buildSearchParams m q p) = [(spec_parameter m, q)]"
    unfolding buildSearchParams_spec
    by (simp only: filter.simps fst_conv in5 out if_True if_False)
  show "map fst (buildSearchParams m q p) = [spec_parameter m, ''page'', ''fields'', ''limit'']"
    unfolding buildSearchParams_spec by (simp only: list.map fst_conv)
  show "map_of (buildSearchParams m q p) ''page'' = Some (String_of_number p)"
    unfolding buildSearchParams_spec using ne by (simp)
  show "map_of (buildSearchParams m q p) ''fields'' =
     Some ''key,title,author_name,first_publish_year,cover_i,edition_key,language,subject,isbn''"
    unfolding buildSearchParams_spec using ne by (simp)
  show "map_of (buildSearchParams m q p) ''limit'' = Some ''100''"
    unfolding buildSearchParams_spec using ne by (simp)
  have s: "params_toString (buildSearchParams m q p) =
      spec_parameter m @ ''='' @ urlencode q @ ''&page='' @ String_of_number p @
     ''&fields=key%2Ctitle%2Cauthor_name%2Cfirst_publish_year%2Ccover_i%2Cedition_key%2Clanguage%2Csubject%2Cisbn'' @
     ''&limit=100''"
    unfolding buildSearchParams_spec params_toString_def
    by (simp add: urlencode_names urlencode_number spec_parameter_plain)
  have "url_with_search u (spec_parameter m @ r) = u @ ''?'' @ spec_parameter m @ r" for u r
    using spec_parameter_hd [of m] by (simp add: url_with_search_def)
  then show "buildSearchURL m q p =
     ''https://openlibrary.org/search.json?'' @ spec_parameter m @ ''='' @ urlencode q @
     ''&page='' @ String_of_number p @
     ''&fields=key%2Ctitle%2Cauthor_name%2Cfirst_publish_year%2Ccover_i%2Cedition_key%2Clanguage%2Csubject%2Cisbn'' @
     ''&limit=100''"
    unfolding buildSearchURL_def s by (simp add: OPENLIB_BASE_def)
qed

text \<open>The scenario of the specification: mode \<^verbatim>\<open>title\<close>, query \<^verbatim>\<open>Dune\<close>, page 1.\<close>

theorem search_url_parameters_witness:
  "buildSearchURL ''title'' ''Dune'' 1 =
     ''https://openlibrary.org/search.json?title=Dune&page=1&fields=key%2Ctitle%2Cauthor_name%2Cfirst_publish_year%2Ccover_i%2Cedition_key%2Clanguage%2Csubject%2Cisbn&limit=100''"
proof -
  have a: "spec_parameter ''title'' = ''title''" by (simp add: spec_parameter_def)
  have b: "urlencode ''Dune'' = ''Dune''" by code_simp
  have c: "String_of_number 1 = ''1''" by code_simp
  from search_url_parameters [of "''title''" "''Dune''" 1] show ?thesis
    unfolding a b c by simp
qed

subsection \<open>fetchPage\<close>

lemma str_or_nonempty: "d \<noteq> [] \<Longrightarrow> str_or s d \<noteq> []"
  by (simp add: str_or_def)

lemma fetchPage_catch_fields:
  "docs (fetchPage_catch msg st) = docs st"
  "numFound (fetchPage_catch msg st) = numFound st"
  "apiPage (fetchPage_catch msg st) = apiPage st"
  "error (fetchPage_catch msg st) = str_or msg ''Something went wrong''"
  "loading (fetchPage_catch msg st) = False"
  by (simp_all add: fetchPage_catch_def)

lemma fetchPage_begin_fields:
  "docs (fetchPage_begin st) = docs st"
  "numFound (fetchPage_begin st) = numFound st"
  "apiPage (fetchPage_begin st) = apiPage st"
  by (simp_all add: fetchPage_begin_def)

lemma fetchPage_settle_loading: "loading (fetchPage_settle p r st) = False"
  by (simp add: fetchPage_settle_def fetchPage_catch_fields Let_def
      split: fetch_result.split body.split)

lemma fetchPage_loading: "loading (fetchPage net p st) = False"
  by (simp add: fetchPage_def Let_def fetchPage_settle_loading)

text \<open>
  C7. When the request of \<open>fetchPage\<close> is answered with a status that is not a success, or
  with a body that does not parse, the accumulated records, the total-match count and the
  API page number are what they were before the call, the error message is set and is not
  empty (\<^verbatim>\<open>HTTP\<close> and the status, respectively the parser's message or a default), and the
  loading flag is cleared. The loading flag is cleared after every call of \<open>fetchPage\<close>,
  whatever the answer.
\<close>

theorem fetch_failure_keeps_results:
  assumes "net (buildSearchURL (mode st) (trim (query st)) p) = Response status b"
    and "\<not> ok status \<or> b = BadJson msg"
  shows "docs (fetchPage net p st) = docs st \<and>
    numFound (fetchPage net p st) = numFound st \<and>
    apiPage (fetchPage net p st) = apiPage st \<and>
    error (fetchPage net p st) =
      (if \<not> ok status then ''HTTP '' @ String_of_number status
       else str_or msg ''Something went wrong'') \<and>
    error (fetchPage net p st) \<noteq> [] \<and>
    loading (fetchPage net p st) = False \<and>
    loading (fetchPage net' p' st') = False"
proof -
  have e: "fetchPage net p st =
      fetchPage_catch (if \<not> ok status then ''HTTP '' @ String_of_number status else msg)
        (fetchPage_begin st)"
    using assms by (auto simp: fetchPage_def fetchPage_settle_def Let_def)
  have "str_or (''HTTP '' @ String_of_number status) ''Something went wrong'' =
      ''HTTP '' @ String_of_number status"
    by (simp add: str_or_def)
  then show ?thesis
    unfolding e
    by (simp add: fetchPage_catch_fields fetchPage_begin_fields fetchPage_loading
        str_or_nonempty)
qed

theorem fetch_failure_keeps_results_witness:
  "docs (fetchPage (\<lambda>url. Response 404 (BadJson '''')) 2
      ((initial [])\<lparr>docs := [book ''/works/OL1W'' ''Dune'' 1965], numFound := 7\<rparr>)) =
     [book ''/works/OL1W'' ''Dune'' 1965] \<and>
   numFound (fetchPage (\<lambda>url. Response 404 (BadJson '''')) 2
      ((initial [])\<lparr>docs := [book ''/works/OL1W'' ''Dune'' 1965], numFound := 7\<rparr>)) = 7 \<and>
   error (fetchPage (\<lambda>url. Response 404 (BadJson '''')) 2
      ((initial [])\<lparr>docs := [book ''/works/OL1W'' ''Dune'' 1965], numFound := 7\<rparr>)) =
     ''HTTP 404''"
proof -
  have h1: "(\<lambda>url. Response 404 (BadJson ''''))
      (buildSearchURL (mode ((initial [])\<lparr>docs := [book ''/works/OL1W'' ''Dune'' 1965],
         numFound := 7\<rparr>))
        (trim (query ((initial [])\<lparr>docs := [book ''/works/OL1W'' ''Dune'' 1965],
         numFound := 7\<rparr>))) 2) = Response 404 (BadJson '''')"
    by simp
  have h2: "\<not> ok 404 \<or> BadJson '''' = BadJson ''''"
    by simp
  have s: "String_of_number 404 = ''404''"
    by code_simp
  have n: "\<not> ok 404"
    by (simp add: ok_def)
  from fetch_failure_keeps_results [OF h1 h2] show ?thesis
    by (simp add: s n)
qed

text \<open>
  C8 (as amended). After a successful answer the total-match count is the answer's
  \<^verbatim>\<open>numFound\<close> when that is present and not zero, and otherwise the number of records in
  the answer, counted before the merge removes those already accumulated.
\<close>

theorem fetch_success_total:
  assumes "net (buildSearchURL (mode st) (trim (query st)) p) = Response status (Json d)"
    and "ok status"
  shows "numFound (fetchPage net p st) =
      (case data_numFound d of
         None \<Rightarrow> length (case data_docs d of None \<Rightarrow> [] | Some ds \<Rightarrow> ds)
       | Some n \<Rightarrow>
           if n = 0 then length (case data_docs d of None \<Rightarrow> [] | Some ds \<Rightarrow> ds) else n) \<and>
    docs (fetchPage net p st) =
      mergeDocs (docs st)
        (map (\<lambda>x. x\<lparr>dunder_id := key x\<rparr>) (case data_docs d of None \<Rightarrow> [] | Some ds \<Rightarrow> ds)) \<and>
    apiPage (fetchPage net p st) = p"
  using assms
  by (simp add: fetchPage_def fetchPage_settle_def Let_def fetchPage_begin_def num_or_def
      list_or_def split: option.split)

theorem fetch_success_total_witness:
  "numFound (fetchPage
      (\<lambda>url. Response 200 (Json \<lparr>data_docs = Some [book ''/works/OL1W'' ''Dune'' 1965],
         data_numFound = Some 42\<rparr>)) 1 (initial [])) = 42"
proof -
  have h1: "(\<lambda>url. Response 200 (Json \<lparr>data_docs = Some [book ''/works/OL1W'' ''Dune'' 1965],
         data_numFound = Some 42\<rparr>))
      (buildSearchURL (mode (initial [])) (trim (query (initial []))) 1) =
      Response 200 (Json \<lparr>data_docs = Some [book ''/works/OL1W'' ''Dune'' 1965],
         data_numFound = Some 42\<rparr>)"
    by simp
  have h2: "ok 200"
    by (simp add: ok_def)
  from fetch_success_total [OF h1 h2] show ?thesis
    by simp
qed

text \<open>
  With \<^verbatim>\<open>numFound\<close> missing and the one record of the answer already accumulated, nothing
  is added to the list, yet the count becomes 1, the size of the answer.
\<close>

theorem fetch_success_total_counterexample:
  "numFound (fetchPage
      (\<lambda>url. Response 200 (Json \<lparr>data_docs = Some [book ''/works/OL1W'' ''Dune'' 1965],
         data_numFound = None\<rparr>)) 2
      ((initial [])\<lparr>docs := [book ''/works/OL1W'' ''Dune'' 1965]\<rparr>)) \<noteq>
   length (docs (fetchPage
      (\<lambda>url. Response 200 (Json \<lparr>data_docs = Some [book ''/works/OL1W'' ''Dune'' 1965],
         data_numFound = None\<rparr>)) 2
      ((initial [])\<lparr>docs := [book ''/works/OL1W'' ''Dune'' 1965]\<rparr>))) -
   length (docs ((initial [])\<lparr>docs := [book ''/works/OL1W'' ''Dune'' 1965]\<rparr>))"
  by (simp add: fetchPage_def fetchPage_settle_def Let_def fetchPage_begin_def num_or_def
      list_or_def ok_def mergeDocs_def uniqueBy_def book_def)

subsection \<open>Sorting\<close>

lemma Array_sort_Cons: "Array_sort cmp (x # xs) = insertBy cmp x (Array_sort cmp xs)"
  by (simp add: Array_sort_def)

lemma Array_sort_Nil: "Array_sort cmp [] = []"
  by (simp add: Array_sort_def)

lemma insertBy_mset: "mset (insertBy cmp x ys) = add_mset x (mset ys)"
  by (induction ys) simp_all

lemma Array_sort_mset: "mset (Array_sort cmp xs) = mset xs"
  by (induction xs) (simp_all add: Array_sort_Nil Array_sort_Cons insertBy_mset)

lemma Array_sort_set: "set (Array_sort cmp xs) = set xs"
  using Array_sort_mset [of cmp xs] by (metis set_mset_mset)

lemma Array_sort_length: "length (Array_sort cmp xs) = length xs"
  using Array_sort_mset [of cmp xs] by (metis size_mset)

lemma insertBy_set: "set (insertBy cmp x ys) = insert x (set ys)"
  using insertBy_mset [of cmp x ys] by (metis set_mset_mset set_mset_add_mset_insert)

lemma consistent_total: "consistent cmp \<Longrightarrow> \<not> cmp a b \<le> 0 \<Longrightarrow> cmp b a \<le> 0"
  unfolding consistent_def by (metis not_le less_imp_le)

lemma consistent_trans:
  "consistent cmp \<Longrightarrow> cmp a b \<le> 0 \<Longrightarrow> cmp b c \<le> 0 \<Longrightarrow> cmp a c \<le> 0"
  unfolding consistent_def by blast

lemma consistent_equiv:
  assumes "consistent cmp" and "cmp x a = 0" and "cmp y a = 0"
  shows "cmp x y \<le> 0"
proof -
  have "\<not> 0 < cmp a y"
    using assms(1,3) unfolding consistent_def by (metis less_irrefl)
  then have "cmp a y \<le> 0" by simp
  moreover have "cmp x a \<le> 0" using assms(2) by simp
  ultimately show ?thesis by (rule consistent_trans [OF assms(1), rotated])
qed

lemma insertBy_sorted:
  assumes "consistent cmp" and "sorted_wrt (\<lambda>a b. cmp a b \<le> 0) ys"
  shows "sorted_wrt (\<lambda>a b. cmp a b \<le> 0) (insertBy cmp x ys)"
  using assms(2)
proof (induction ys)
  case Nil
  show ?case by simp
next
  case (Cons y ys)
  show ?case
  proof (cases "cmp x y \<le> 0")
    case True
    have "cmp x z \<le> 0" if "z \<in> set ys" for z
    proof -
      from Cons.prems that have "cmp y z \<le> 0" by simp
      with True show ?thesis by (rule consistent_trans [OF assms(1)])
    qed
    with True Cons.prems show ?thesis by simp
  next
    case False
    then have "cmp y x \<le> 0" by (rule consistent_total [OF assms(1)])
    moreover have "sorted_wrt (\<lambda>a b. cmp a b \<le> 0) (insertBy cmp x ys)"
      using Cons by simp
    ultimately show ?thesis using False Cons.prems by (simp add: insertBy_set)
  qed
qed

lemma Array_sort_sorted:
  "consistent cmp \<Longrightarrow> sorted_wrt (\<lambda>a b. cmp a b \<le> 0) (Array_sort cmp xs)"
  by (induction xs) (simp_all add: Array_sort_Nil Array_sort_Cons insertBy_sorted)

lemma insertBy_filter_equiv:
  assumes "consistent cmp"
  shows "filter (\<lambda>z. cmp z a = 0) (insertBy cmp x ys) =
    (if cmp x a = 0 then x # filter (\<lambda>z. cmp z a = 0) ys else filter (\<lambda>z. cmp z a = 0) ys)"
proof (induction ys)
  case Nil
  show ?case by simp
next
  case (Cons y ys)
  show ?case
  proof (cases "cmp x y \<le> 0")
    case True
    then show ?thesis by simp
  next
    case False
    have "\<not> (cmp x a = 0 \<and> cmp y a = 0)"
    proof
      assume "cmp x a = 0 \<and> cmp y a = 0"
      then have "cmp x a = 0" and "cmp y a = 0" by simp_all
      then have "cmp x y \<le> 0" by (rule consistent_equiv [OF assms])
      with False show False by simp
    qed
    with False Cons.IH show ?thesis by auto
  qed
qed

lemma Array_sort_stable:
  "consistent cmp \<Longrightarrow>
   filter (\<lambda>z. cmp z a = 0) (Array_sort cmp xs) = filter (\<lambda>z. cmp z a = 0) xs"
  by (induction xs) (simp_all add: Array_sort_Nil Array_sort_Cons insertBy_filter_equiv)

lemma consistent_by_key:
  "consistent cmp \<Longrightarrow> consistent (\<lambda>a b. cmp (f a) (f b))"
  unfolding consistent_def by blast

lemma consistent_difference: "consistent (\<lambda>a b. f a - (f b :: int))"
  unfolding consistent_def by auto

lemma consistent_byteCompare: "consistent byteCompare"
  unfolding consistent_def byteCompare_def by auto

subsection \<open>The filtered list\<close>

lemma filtered_eq:
  "filtered lc ds lg yf yt so =
     (if so = ''title'' then
        Array_sort (\<lambda>a b. lc (opt_str_or (title a) []) (opt_str_or (title b) []))
          (filter (passes lg yf yt) ds)
      else if so = ''year-asc'' then
        Array_sort (\<lambda>a b. num_or (first_publish_year a) 0 - num_or (first_publish_year b) 0)
          (filter (passes lg yf yt) ds)
      else if so = ''year-desc'' then
        Array_sort (\<lambda>a b. num_or (first_publish_year b) 0 - num_or (first_publish_year a) 0)
          (filter (passes lg yf yt) ds)
      else filter (passes lg yf yt) ds)"
proof -
  have "filter (\<lambda>d. num_ge (num_or (first_publish_year d) 0) (parseInt (str_or yf ''0'')) \<and>
          num_le (num_or (first_publish_year d) 0) (parseInt (str_or yt ''9999'')))
        (if lg \<noteq> [] then filter (\<lambda>d. lg \<in> set (list_or (language d) [])) ds else ds) =
      filter (passes lg yf yt) ds"
    by (auto simp: passes_def intro: filter_cong)
  then show ?thesis
    by (simp add: filtered_def Let_def)
qed

lemma filtered_set: "set (filtered lc ds lg yf yt so) = {d \<in> set ds. passes lg yf yt d}"
  by (simp add: filtered_eq Array_sort_set)

lemma filtered_length:
  "length (filtered lc ds lg yf yt so) = length (filter (passes lg yf yt) ds)"
  by (simp add: filtered_eq Array_sort_length)

lemma num_or_year: "num_or (first_publish_year d) 0 = spec_year d"
  by (simp add: num_or_def spec_year_def split: option.split)

lemma opt_str_or_title: "opt_str_or (title d) [] = spec_title d"
  by (simp add: opt_str_or_def str_or_def spec_title_def split: option.split)

lemma parseInt_defaults: "parseInt ''0'' = Some 0" "parseInt ''9999'' = Some 9999"
  by code_simp+

subsection \<open>Year bounds\<close>

lemma digitChar_upto:
  "list_all (\<lambda>n. isDigit (digitChar n) \<and> digitVal (digitChar n) = n) [0..<10]"
  by code_simp

lemma digitChar_digit: "n < 10 \<Longrightarrow> isDigit (digitChar n) \<and> digitVal (digitChar n) = n"
  using digitChar_upto by (simp add: list_all_iff)

lemma String_of_number_unfold:
  "String_of_number n =
     (if n < 10 then [digitChar n]
      else String_of_number (n div 10) @ [digitChar (n mod 10)])"
  by (rule String_of_number.simps)

lemma String_of_number_digits:
  "String_of_number n \<noteq> [] \<and> list_all isDigit (String_of_number n) \<and>
   foldl (\<lambda>a c. 10 * a + digitVal c) 0 (String_of_number n) = n"
proof (induction n rule: String_of_number.induct)
  case (1 n)
  show ?case
  proof (cases "n < 10")
    case True
    then have "String_of_number n = [digitChar n]"
      by (subst String_of_number_unfold) simp
    with True show ?thesis by (simp add: digitChar_digit)
  next
    case False
    have m: "n mod 10 < 10" by simp
    have e: "String_of_number n = String_of_number (n div 10) @ [digitChar (n mod 10)]"
      using False by (subst String_of_number_unfold) simp
    from False 1 have ih: "list_all isDigit (String_of_number (n div 10))"
      "foldl (\<lambda>a c. 10 * a + digitVal c) 0 (String_of_number (n div 10)) = n div 10"
      by simp_all
    show ?thesis
      unfolding e using ih digitChar_digit [OF m] by simp
  qed
qed

lemma whitespace_heads:
  "list_all (\<lambda>w. w \<noteq> [] \<and> \<not> isDigit (hd w) \<and> hd w \<noteq> CHR ''-'') whitespace"
  by code_simp

lemma not_digits:
  "\<not> isDigit CHR ''-''" "\<not> isDigit CHR ''+''" "\<not> isDigit CHR ''e''"
  "\<not> isDigit CHR ''E''" "\<not> isDigit CHR ''.''"
  by code_simp+

lemma digit_not_special:
  assumes "isDigit c"
  shows "c \<noteq> CHR ''-''" "c \<noteq> CHR ''+''" "c \<noteq> CHR ''e''" "c \<noteq> CHR ''E''" "c \<noteq> CHR ''.''"
  using assms not_digits by auto

lemma trimStart_same:
  assumes "s \<noteq> []" and "isDigit (hd s) \<or> hd s = CHR ''-''"
  shows "trimStart s = s"
proof -
  have "\<not> (w \<noteq> [] \<and> prefix w s)" if "w \<in> set whitespace" for w
  proof
    assume a: "w \<noteq> [] \<and> prefix w s"
    then obtain r where "s = w @ r" by (auto simp: prefix_def)
    with a have "hd s = hd w" by simp
    moreover from that whitespace_heads have "\<not> isDigit (hd w) \<and> hd w \<noteq> CHR ''-''"
      by (simp add: list_all_iff)
    ultimately show False using assms(2) by simp
  qed
  then have "find (\<lambda>w. w \<noteq> [] \<and> prefix w s) whitespace = None"
    by (simp add: find_None_iff)
  then show ?thesis
    unfolding trimStart_def by (subst stripStart.simps) simp
qed

lemma all_digits_hd: "all_digits s \<Longrightarrow> s \<noteq> [] \<and> isDigit (hd s)"
  by (cases s) (simp_all add: all_digits_def)

lemma all_digits_takeWhile:
  assumes "all_digits s"
  shows "takeWhile isDigit s = s"
    and "takeWhile (\<lambda>c. c \<noteq> CHR ''e'' \<and> c \<noteq> CHR ''E'') s = s"
    and "dropWhile (\<lambda>c. c \<noteq> CHR ''e'' \<and> c \<noteq> CHR ''E'') s = []"
    and "takeWhile (\<lambda>c. c \<noteq> CHR ''.'') s = s"
    and "dropWhile (\<lambda>c. c \<noteq> CHR ''.'') s = []"
proof -
  have d: "isDigit c" if "c \<in> set s" for c
    using assms that by (simp add: all_digits_def list_all_iff)
  show "takeWhile isDigit s = s"
    using d by (simp add: takeWhile_eq_all_conv)
  show "takeWhile (\<lambda>c. c \<noteq> CHR ''e'' \<and> c \<noteq> CHR ''E'') s = s"
    using d digit_not_special by (simp add: takeWhile_eq_all_conv)
  show "dropWhile (\<lambda>c. c \<noteq> CHR ''e'' \<and> c \<noteq> CHR ''E'') s = []"
    using d digit_not_special by (simp add: dropWhile_eq_Nil_conv)
  show "takeWhile (\<lambda>c. c \<noteq> CHR ''.'') s = s"
    using d digit_not_special by (simp add: takeWhile_eq_all_conv)
  show "dropWhile (\<lambda>c. c \<noteq> CHR ''.'') s = []"
    using d digit_not_special by (simp add: dropWhile_eq_Nil_conv)
qed

lemma parseInt_digits:
  assumes "all_digits s"
  shows "parseInt s = Some (int (numeral_value s))"
proof -
  note h = all_digits_hd [OF assms]
  have t: "trimStart s = s"
    using h by (simp add: trimStart_same)
  have n: "hd s \<noteq> CHR ''-''" "hd s \<noteq> CHR ''+''"
    using h digit_not_special(1,2) by blast+
  have w: "takeWhile isDigit s = s"
    using assms by (rule all_digits_takeWhile)
  have e: "s \<noteq> []"
    using h by simp
  show ?thesis
    unfolding parseInt_def t Let_def numeral_value_def by (simp add: n w e)
qed

lemma parseInt_minus:
  assumes "all_digits ds"
  shows "parseInt (CHR ''-'' # ds) = Some (- int (numeral_value ds))"
proof -
  have t: "trimStart (CHR ''-'' # ds) = CHR ''-'' # ds"
    by (rule trimStart_same) simp_all
  have w: "takeWhile isDigit ds = ds"
    using assms by (rule all_digits_takeWhile)
  have "ds \<noteq> []"
    using assms by (simp add: all_digits_def)
  then show ?thesis
    unfolding parseInt_def t Let_def numeral_value_def by (simp add: w)
qed

lemma spec_number_digits:
  assumes "all_digits s"
  shows "spec_number s = Some (of_nat (numeral_value s))"
proof -
  have h: "s \<noteq> []" "hd s \<noteq> CHR ''-''"
    using all_digits_hd [OF assms] digit_not_special(1) by auto
  have l: "list_all isDigit s"
    using assms by (simp add: all_digits_def)
  show ?thesis
    unfolding spec_number_def Let_def
    using h l by (simp add: all_digits_takeWhile [OF assms])
qed

lemma spec_number_minus:
  assumes "all_digits ds"
  shows "spec_number (CHR ''-'' # ds) = Some (- of_nat (numeral_value ds))"
proof -
  have h: "ds \<noteq> []" "list_all isDigit ds"
    using assms by (simp_all add: all_digits_def)
  show ?thesis
    unfolding spec_number_def Let_def
    using h by (simp add: all_digits_takeWhile [OF assms])
qed

text \<open>On the numeral of an integer, \<open>parseInt\<close> reads the number that the text denotes.\<close>

lemma integer_text_read:
  assumes "integer_text s" and "s \<noteq> []"
  shows "\<exists>n. parseInt s = Some n \<and> spec_number s = Some (of_int n)"
proof -
  from assms have "all_digits s \<or> (hd s = CHR ''-'' \<and> all_digits (tl s))"
    by (simp add: integer_text_def)
  then show ?thesis
  proof
    assume a: "all_digits s"
    have "parseInt s = Some (int (numeral_value s))"
      using a by (rule parseInt_digits)
    moreover have "spec_number s = Some (of_int (int (numeral_value s)))"
      using spec_number_digits [OF a] by simp
    ultimately show ?thesis by blast
  next
    assume a: "hd s = CHR ''-'' \<and> all_digits (tl s)"
    with assms(2) have s: "s = CHR ''-'' # tl s"
      by (cases s) simp_all
    have "parseInt (CHR ''-'' # tl s) = Some (- int (numeral_value (tl s)))"
      using a by (simp add: parseInt_minus)
    moreover have "spec_number (CHR ''-'' # tl s) = Some (of_int (- int (numeral_value (tl s))))"
      using a by (simp add: spec_number_minus)
    ultimately show ?thesis using s by metis
  qed
qed

lemma year_bound_numeral: "year_bound (String_of_number n) = Some (of_nat n)"
proof -
  have a: "all_digits (String_of_number n)"
    using String_of_number_digits [of n] by (simp add: all_digits_def)
  have "numeral_value (String_of_number n) = n"
    using String_of_number_digits [of n] by (simp add: numeral_value_def)
  with spec_number_digits [OF a] a show ?thesis
    by (simp add: year_bound_def all_digits_def)
qed

lemma integer_lower_bound:
  assumes "integer_text yf"
  shows "num_ge y (parseInt (str_or yf ''0'')) =
    ((case year_bound yf of None \<Rightarrow> 0 | Some a \<Rightarrow> a) \<le> of_int y)"
proof (cases "yf = []")
  case True
  then show ?thesis
    by (simp add: str_or_def year_bound_def num_ge_def parseInt_defaults)
next
  case False
  with integer_text_read [OF assms] obtain n
    where "parseInt yf = Some n" and "spec_number yf = Some (of_int n)"
    by blast
  with False show ?thesis
    by (simp add: str_or_def year_bound_def num_ge_def)
qed

lemma integer_upper_bound:
  assumes "integer_text yt"
  shows "num_le y (parseInt (str_or yt ''9999'')) =
    (of_int y \<le> (case year_bound yt of None \<Rightarrow> 9999 | Some b \<Rightarrow> b))"
proof (cases "yt = []")
  case True
  then show ?thesis
    by (simp add: str_or_def year_bound_def num_le_def parseInt_defaults)
next
  case False
  with integer_text_read [OF assms] obtain n
    where "parseInt yt = Some n" and "spec_number yt = Some (of_int n)"
    by blast
  with False show ?thesis
    by (simp add: str_or_def year_bound_def num_le_def)
qed

lemma passes_language:
  "(lg = [] \<or> lg \<in> set (list_or (language d) [])) =
     spec_language_pred (selected_language lg) d"
  by (simp add: spec_language_pred_def selected_language_def list_or_def)

lemma passes_code:
  "passes lg yf yt d =
    (spec_language_pred (selected_language lg) d \<and>
     num_ge (spec_year d) (parseInt (str_or yf ''0'')) \<and>
     num_le (spec_year d) (parseInt (str_or yt ''9999'')))"
  unfolding passes_def passes_language num_or_year by simp

lemma passes_spec:
  assumes "integer_text yf" and "integer_text yt"
  shows "passes lg yf yt d =
    (spec_language_pred (selected_language lg) d \<and>
     spec_year_pred (year_bound yf) (year_bound yt) d)"
  unfolding passes_code integer_lower_bound [OF assms(1)] integer_upper_bound [OF assms(2)]
    spec_year_pred_def by simp

lemma unreadable_bound:
  assumes "parseInt (str_or yf ''0'') = None \<or> parseInt (str_or yt ''9999'') = None"
  shows "filtered lc ds lg yf yt so = []"
proof -
  have "\<not> passes lg yf yt d" for d
    using assms by (auto simp: passes_code num_ge_def num_le_def)
  then have "set (filtered lc ds lg yf yt so) = {}"
    by (simp add: filtered_set)
  then show ?thesis by simp
qed

text \<open>
  C5 (as amended). For every accumulated list, language filter and sort order: when each
  year bound is empty or the numeral of an integer, a record is in the filtered output
  exactly when it is accumulated and passes the language predicate (no language selected, or
  the selected code in the record's language list) and the year predicate (publish year, 0
  if absent, from year-from or 0 to year-to or 9999, inclusive). For any other text of a
  bound the code takes what \<open>parseInt\<close> reads at its start as the bound, and when
  \<open>parseInt\<close> reads no number there the output is empty.
\<close>

theorem filter_sound_complete:
  assumes "integer_text yf" and "integer_text yt"
  shows "((d \<in> set (filtered lc ds lg yf yt so)) =
      (d \<in> set ds \<and> spec_language_pred (selected_language lg) d \<and>
       spec_year_pred (year_bound yf) (year_bound yt) d)) \<and>
    ((d \<in> set (filtered lc ds lg yf' yt' so)) =
      (d \<in> set ds \<and> spec_language_pred (selected_language lg) d \<and>
       num_ge (spec_year d) (parseInt (str_or yf' ''0'')) \<and>
       num_le (spec_year d) (parseInt (str_or yt' ''9999'')))) \<and>
    (parseInt (str_or yf' ''0'') = None \<or> parseInt (str_or yt' ''9999'') = None \<longrightarrow>
       filtered lc ds lg yf' yt' so = [])"
proof (intro conjI)
  show "(d \<in> set (filtered lc ds lg yf yt so)) =
      (d \<in> set ds \<and> spec_language_pred (selected_language lg) d \<and>
       spec_year_pred (year_bound yf) (year_bound yt) d)"
    by (simp add: filtered_set passes_spec [OF assms])
  show "(d \<in> set (filtered lc ds lg yf' yt' so)) =
      (d \<in> set ds \<and> spec_language_pred (selected_language lg) d \<and>
       num_ge (spec_year d) (parseInt (str_or yf' ''0'')) \<and>
       num_le (spec_year d) (parseInt (str_or yt' ''9999'')))"
    by (simp add: filtered_set passes_code)
  show "parseInt (str_or yf' ''0'') = None \<or> parseInt (str_or yt' ''9999'') = None \<longrightarrow>
       filtered lc ds lg yf' yt' so = []"
    by (simp add: unreadable_bound)
qed

text \<open>The scenario of the specification: years 1940, 1955 and 1999 against the range
  from 1950 to 1960.\<close>

lemma year_range_scenario:
  "filtered byteCompare
     [book ''/works/OL1W'' ''Dune'' 1940, book ''/works/OL2W'' ''Emma'' 1955,
      book ''/works/OL3W'' ''Ulysses'' 1999] [] ''1950'' ''1960'' ''relevance'' =
   [book ''/works/OL2W'' ''Emma'' 1955]"
  by code_simp

lemma bound_examples:
  "integer_text ''1950''" "integer_text ''1960''"
  "parseInt ''.5'' = None" "year_bound ''.5'' = Some (1 / 2)"
  "parseInt ''1e3'' = Some 1" "year_bound ''1e3'' = Some 1000"
  by code_simp+

lemma bound_numerals: "year_bound ''1950'' = Some 1950" "year_bound ''1960'' = Some 1960"
proof -
  have a: "all_digits ''1950''" "all_digits ''1960''"
    by code_simp+
  have n: "numeral_value ''1950'' = 1950" "numeral_value ''1960'' = 1960"
    by code_simp+
  show "year_bound ''1950'' = Some 1950" "year_bound ''1960'' = Some 1960"
    using spec_number_digits [OF a(1)] spec_number_digits [OF a(2)]
    by (simp_all add: year_bound_def n)
qed

theorem filter_sound_complete_witness:
  "integer_text ''1950'' \<and> integer_text ''1960'' \<and>
   book ''/works/OL2W'' ''Emma'' 1955 \<in> set (filtered byteCompare
     [book ''/works/OL1W'' ''Dune'' 1940, book ''/works/OL2W'' ''Emma'' 1955,
      book ''/works/OL3W'' ''Ulysses'' 1999] [] ''1950'' ''1960'' ''relevance'') \<and>
   book ''/works/OL1W'' ''Dune'' 1940 \<notin> set (filtered byteCompare
     [book ''/works/OL1W'' ''Dune'' 1940, book ''/works/OL2W'' ''Emma'' 1955,
      book ''/works/OL3W'' ''Ulysses'' 1999] [] ''1950'' ''1960'' ''relevance'') \<and>
   parseInt (str_or ''.5'' ''0'') = None \<and>
   filtered byteCompare
     [book ''/works/OL1W'' ''Dune'' 1940, book ''/works/OL2W'' ''Emma'' 1955,
      book ''/works/OL3W'' ''Ulysses'' 1999] [] ''.5'' [] ''relevance'' = []"
proof -
  have h1: "integer_text ''1950''" and h2: "integer_text ''1960''"
    by (rule bound_examples)+
  have p: "parseInt (str_or ''.5'' ''0'') = None"
    by (simp add: str_or_def bound_examples)
  have y: "spec_year (book k t y) = y" for k t y
    by (simp add: spec_year_def book_def)
  have l: "spec_language_pred (selected_language []) x" for x
    by (simp add: spec_language_pred_def selected_language_def)
  note t1 = filter_sound_complete [OF h1 h2, where d = "book ''/works/OL2W'' ''Emma'' 1955"
      and lc = byteCompare and lg = "[]" and so = "''relevance''" and yf' = "''.5''"
      and yt' = "[]"
      and ds = "[book ''/works/OL1W'' ''Dune'' 1940, book ''/works/OL2W'' ''Emma'' 1955,
        book ''/works/OL3W'' ''Ulysses'' 1999]"]
  note t2 = filter_sound_complete [OF h1 h2, where d = "book ''/works/OL1W'' ''Dune'' 1940"
      and lc = byteCompare and lg = "[]" and so = "''relevance''" and yf' = "''.5''"
      and yt' = "[]"
      and ds = "[book ''/works/OL1W'' ''Dune'' 1940, book ''/works/OL2W'' ''Emma'' 1955,
        book ''/works/OL3W'' ''Ulysses'' 1999]"]
  from t1 have m1: "book ''/works/OL2W'' ''Emma'' 1955 \<in> set (filtered byteCompare
     [book ''/works/OL1W'' ''Dune'' 1940, book ''/works/OL2W'' ''Emma'' 1955,
      book ''/works/OL3W'' ''Ulysses'' 1999] [] ''1950'' ''1960'' ''relevance'')"
    by (simp add: bound_numerals y l spec_year_pred_def)
  from t2 have m2: "book ''/works/OL1W'' ''Dune'' 1940 \<notin> set (filtered byteCompare
     [book ''/works/OL1W'' ''Dune'' 1940, book ''/works/OL2W'' ''Emma'' 1955,
      book ''/works/OL3W'' ''Ulysses'' 1999] [] ''1950'' ''1960'' ''relevance'')"
    by (simp add: bound_numerals y l spec_year_pred_def)
  from t1 p have m3: "filtered byteCompare
     [book ''/works/OL1W'' ''Dune'' 1940, book ''/works/OL2W'' ''Emma'' 1955,
      book ''/works/OL3W'' ''Ulysses'' 1999] [] ''.5'' [] ''relevance'' = []"
    by blast
  from h1 h2 m1 m2 m3 p show ?thesis by blast
qed

text \<open>
  The number field accepts \<^verbatim>\<open>.5\<close>, which denotes one half. A record of 1955 lies between
  one half and 9999 and passes both predicates of the claim, yet it is not in the filtered
  output: \<open>parseInt\<close> reads no number from \<^verbatim>\<open>.5\<close>, and no year compares with \<^verbatim>\<open>NaN\<close>.
\<close>

theorem filter_sound_complete_counterexample:
  "year_bound ''.5'' = Some (1 / 2) \<and>
   (book ''/works/OL2W'' ''Emma'' 1955 \<in>
      set (filtered byteCompare [book ''/works/OL2W'' ''Emma'' 1955] [] ''.5'' [] ''relevance'')) \<noteq>
   (book ''/works/OL2W'' ''Emma'' 1955 \<in> set [book ''/works/OL2W'' ''Emma'' 1955] \<and>
    spec_language_pred (selected_language []) (book ''/works/OL2W'' ''Emma'' 1955) \<and>
    spec_year_pred (year_bound ''.5'') (year_bound []) (book ''/works/OL2W'' ''Emma'' 1955))"
proof -
  have p: "parseInt (str_or ''.5'' ''0'') = None"
    by (simp add: str_or_def bound_examples)
  then have "filtered byteCompare [book ''/works/OL2W'' ''Emma'' 1955] [] ''.5'' [] ''relevance'' = []"
    by (simp add: unreadable_bound)
  moreover have "spec_language_pred (selected_language []) (book ''/works/OL2W'' ''Emma'' 1955)"
    by (simp add: spec_language_pred_def selected_language_def)
  moreover have "year_bound [] = None"
    by (simp add: year_bound_def)
  then have "spec_year_pred (year_bound ''.5'') (year_bound [])
      (book ''/works/OL2W'' ''Emma'' 1955)"
    by (simp add: bound_examples spec_year_pred_def spec_year_def book_def)
  ultimately show ?thesis
    by (simp add: bound_examples)
qed

subsection \<open>Sort orders\<close>

lemma consistent_title: "consistent lc \<Longrightarrow> consistent (\<lambda>a b. lc (spec_title a) (spec_title b))"
  by (rule consistent_by_key)

lemma title_of_book: "spec_title (book k t y) = t"
  by (simp add: spec_title_def book_def)

lemma year_of_book: "spec_year (book k t y) = y"
  by (simp add: spec_year_def book_def)

lemma sorted_by_title:
  assumes "consistent lc"
  shows "mset (filtered lc ds lg yf yt ''title'') = mset (filter (passes lg yf yt) ds)"
    and "sorted_wrt (\<lambda>a b. lc (spec_title a) (spec_title b) \<le> 0)
      (filtered lc ds lg yf yt ''title'')"
    and "filter (\<lambda>d. lc (spec_title d) t = 0) (filtered lc ds lg yf yt ''title'') =
      filter (\<lambda>d. lc (spec_title d) t = 0) (filter (passes lg yf yt) ds)"
proof -
  let ?cmp = "\<lambda>a b. lc (spec_title a) (spec_title b)"
  have e: "filtered lc ds lg yf yt ''title'' = Array_sort ?cmp (filter (passes lg yf yt) ds)"
    by (simp add: filtered_eq opt_str_or_title)
  have c: "consistent ?cmp"
    using assms by (rule consistent_title)
  show "mset (filtered lc ds lg yf yt ''title'') = mset (filter (passes lg yf yt) ds)"
    unfolding e by (rule Array_sort_mset)
  show "sorted_wrt (\<lambda>a b. lc (spec_title a) (spec_title b) \<le> 0)
      (filtered lc ds lg yf yt ''title'')"
    unfolding e using c by (rule Array_sort_sorted)
  have k: "(\<lambda>z. ?cmp z (book [] t 0) = 0) = (\<lambda>d. lc (spec_title d) t = 0)"
    by (simp add: title_of_book)
  show "filter (\<lambda>d. lc (spec_title d) t = 0) (filtered lc ds lg yf yt ''title'') =
      filter (\<lambda>d. lc (spec_title d) t = 0) (filter (passes lg yf yt) ds)"
    unfolding e using Array_sort_stable [OF c, of "book [] t 0"] unfolding k .
qed

lemma sorted_by_year_asc:
  shows "mset (filtered lc ds lg yf yt ''year-asc'') = mset (filter (passes lg yf yt) ds)"
    and "sorted_wrt (\<lambda>a b. spec_year a \<le> spec_year b) (filtered lc ds lg yf yt ''year-asc'')"
    and "filter (\<lambda>d. spec_year d = y) (filtered lc ds lg yf yt ''year-asc'') =
      filter (\<lambda>d. spec_year d = y) (filter (passes lg yf yt) ds)"
proof -
  let ?cmp = "\<lambda>a b. spec_year a - spec_year b"
  have e: "filtered lc ds lg yf yt ''year-asc'' = Array_sort ?cmp (filter (passes lg yf yt) ds)"
    by (simp add: filtered_eq num_or_year)
  have c: "consistent ?cmp"
    by (rule consistent_difference)
  show "mset (filtered lc ds lg yf yt ''year-asc'') = mset (filter (passes lg yf yt) ds)"
    unfolding e by (rule Array_sort_mset)
  have "sorted_wrt (\<lambda>a b. ?cmp a b \<le> 0) (Array_sort ?cmp (filter (passes lg yf yt) ds))"
    using c by (rule Array_sort_sorted)
  then show "sorted_wrt (\<lambda>a b. spec_year a \<le> spec_year b)
      (filtered lc ds lg yf yt ''year-asc'')"
    unfolding e by simp
  have k: "(\<lambda>z. ?cmp z (book [] [] y) = 0) = (\<lambda>d. spec_year d = y)"
    by (auto simp: year_of_book)
  show "filter (\<lambda>d. spec_year d = y) (filtered lc ds lg yf yt ''year-asc'') =
      filter (\<lambda>d. spec_year d = y) (filter (passes lg yf yt) ds)"
    unfolding e using Array_sort_stable [OF c, of "book [] [] y"] unfolding k .
qed

lemma sorted_by_year_desc:
  shows "mset (filtered lc ds lg yf yt ''year-desc'') = mset (filter (passes lg yf yt) ds)"
    and "sorted_wrt (\<lambda>a b. spec_year b \<le> spec_year a) (filtered lc ds lg yf yt ''year-desc'')"
    and "filter (\<lambda>d. spec_year d = y) (filtered lc ds lg yf yt ''year-desc'') =
      filter (\<lambda>d. spec_year d = y) (filter (passes lg yf yt) ds)"
proof -
  let ?cmp = "\<lambda>a b. (- spec_year a) - (- spec_year b)"
  have e: "filtered lc ds lg yf yt ''year-desc'' = Array_sort ?cmp (filter (passes lg yf yt) ds)"
    by (simp add: filtered_eq num_or_year)
  have c: "consistent ?cmp"
    by (rule consistent_difference)
  show "mset (filtered lc ds lg yf yt ''year-desc'') = mset (filter (passes lg yf yt) ds)"
    unfolding e by (rule Array_sort_mset)
  have "sorted_wrt (\<lambda>a b. ?cmp a b \<le> 0) (Array_sort ?cmp (filter (passes lg yf yt) ds))"
    using c by (rule Array_sort_sorted)
  then show "sorted_wrt (\<lambda>a b. spec_year b \<le> spec_year a)
      (filtered lc ds lg yf yt ''year-desc'')"
    unfolding e by simp
  have k: "(\<lambda>z. ?cmp z (book [] [] y) = 0) = (\<lambda>d. spec_year d = y)"
    by (auto simp: year_of_book)
  show "filter (\<lambda>d. spec_year d = y) (filtered lc ds lg yf yt ''year-desc'') =
      filter (\<lambda>d. spec_year d = y) (filter (passes lg yf yt) ds)"
    unfolding e using Array_sort_stable [OF c, of "book [] [] y"] unfolding k .
qed

lemma unsorted_relevance:
  "filtered lc ds lg yf yt ''relevance'' = filter (passes lg yf yt) ds"
  by (simp add: filtered_eq)


text \<open>
  C6. Let the filtered records be the accumulated records that pass the filters, in
  accumulation order. With sort order \<^verbatim>\<open>relevance\<close> the output is that list, unchanged. With
  \<^verbatim>\<open>title\<close>, and \<open>localeCompare\<close> a consistent comparator, the output is a rearrangement of
  it that ascends by \<open>localeCompare\<close> on the titles, a missing title counting as the empty
  string, and records whose titles compare equal keep their relative order. With
  \<^verbatim>\<open>year-asc\<close> and \<^verbatim>\<open>year-desc\<close> the output is a rearrangement that ascends, respectively
  descends, by publish year, a missing year counting as 0, and records of the same year
  keep their relative order.
\<close>

theorem sort_orders:
  assumes "consistent lc"
  shows "filtered lc ds lg yf yt ''relevance'' = filter (passes lg yf yt) ds \<and>
    mset (filtered lc ds lg yf yt ''title'') = mset (filter (passes lg yf yt) ds) \<and>
    sorted_wrt (\<lambda>a b. lc (spec_title a) (spec_title b) \<le> 0)
      (filtered lc ds lg yf yt ''title'') \<and>
    filter (\<lambda>d. lc (spec_title d) t = 0) (filtered lc ds lg yf yt ''title'') =
      filter (\<lambda>d. lc (spec_title d) t = 0) (filter (passes lg yf yt) ds) \<and>
    mset (filtered lc ds lg yf yt ''year-asc'') = mset (filter (passes lg yf yt) ds) \<and>
    sorted_wrt (\<lambda>a b. spec_year a \<le> spec_year b) (filtered lc ds lg yf yt ''year-asc'') \<and>
    filter (\<lambda>d. spec_year d = y) (filtered lc ds lg yf yt ''year-asc'') =
      filter (\<lambda>d. spec_year d = y) (filter (passes lg yf yt) ds) \<and>
    mset (filtered lc ds lg yf yt ''year-desc'') = mset (filter (passes lg yf yt) ds) \<and>
    sorted_wrt (\<lambda>a b. spec_year b \<le> spec_year a) (filtered lc ds lg yf yt ''year-desc'') \<and>
    filter (\<lambda>d. spec_year d = y) (filtered lc ds lg yf yt ''year-desc'') =
      filter (\<lambda>d. spec_year d = y) (filter (passes lg yf yt) ds)"
proof (intro conjI)
  show "filtered lc ds lg yf yt ''relevance'' = filter (passes lg yf yt) ds"
    by (rule unsorted_relevance)
  show "mset (filtered lc ds lg yf yt ''title'') = mset (filter (passes lg yf yt) ds)"
    using assms by (rule sorted_by_title(1))
  show "sorted_wrt (\<lambda>a b. lc (spec_title a) (spec_title b) \<le> 0)
      (filtered lc ds lg yf yt ''title'')"
    using assms by (rule sorted_by_title(2))
  show "filter (\<lambda>d. lc (spec_title d) t = 0) (filtered lc ds lg yf yt ''title'') =
      filter (\<lambda>d. lc (spec_title d) t = 0) (filter (passes lg yf yt) ds)"
    using assms by (rule sorted_by_title(3))
  show "mset (filtered lc ds lg yf yt ''year-asc'') = mset (filter (passes lg yf yt) ds)"
    by (rule sorted_by_year_asc(1))
  show "sorted_wrt (\<lambda>a b. spec_year a \<le> spec_year b) (filtered lc ds lg yf yt ''year-asc'')"
    by (rule sorted_by_year_asc(2))
  show "filter (\<lambda>d. spec_year d = y) (filtered lc ds lg yf yt ''year-asc'') =
      filter (\<lambda>d. spec_year d = y) (filter (passes lg yf yt) ds)"
    by (rule sorted_by_year_asc(3))
  show "mset (filtered lc ds lg yf yt ''year-desc'') = mset (filter (passes lg yf yt) ds)"
    by (rule sorted_by_year_desc(1))
  show "sorted_wrt (\<lambda>a b. spec_year b \<le> spec_year a) (filtered lc ds lg yf yt ''year-desc'')"
    by (rule sorted_by_year_desc(2))
  show "filter (\<lambda>d. spec_year d = y) (filtered lc ds lg yf yt ''year-desc'') =
      filter (\<lambda>d. spec_year d = y) (filter (passes lg yf yt) ds)"
    by (rule sorted_by_year_desc(3))
qed

lemma sort_example:
  "filtered byteCompare
     [book ''/works/OL1W'' ''Dune'' 1965, book ''/works/OL2W'' ''Emma'' 1815,
      book ''/works/OL3W'' ''Beloved'' 1987] [] [] [] ''title'' =
   [book ''/works/OL3W'' ''Beloved'' 1987, book ''/works/OL1W'' ''Dune'' 1965,
    book ''/works/OL2W'' ''Emma'' 1815]"
  by code_simp

theorem sort_orders_witness:
  "consistent byteCompare \<and>
   sorted_wrt (\<lambda>a b. byteCompare (spec_title a) (spec_title b) \<le> 0)
     (filtered byteCompare
       [book ''/works/OL1W'' ''Dune'' 1965, book ''/works/OL2W'' ''Emma'' 1815,
        book ''/works/OL3W'' ''Beloved'' 1987] [] [] [] ''title'') \<and>
   filtered byteCompare
     [book ''/works/OL1W'' ''Dune'' 1965, book ''/works/OL2W'' ''Emma'' 1815,
      book ''/works/OL3W'' ''Beloved'' 1987] [] [] [] ''title'' =
   [book ''/works/OL3W'' ''Beloved'' 1987, book ''/works/OL1W'' ''Dune'' 1965,
    book ''/works/OL2W'' ''Emma'' 1815]"
proof -
  note t = sort_orders [OF consistent_byteCompare, where
      ds = "[book ''/works/OL1W'' ''Dune'' 1965, book ''/works/OL2W'' ''Emma'' 1815,
        book ''/works/OL3W'' ''Beloved'' 1987]" and lg = "[]" and yf = "[]" and yt = "[]"
      and t = "[]" and y = 0]
  from t have "sorted_wrt (\<lambda>a b. byteCompare (spec_title a) (spec_title b) \<le> 0)
     (filtered byteCompare
       [book ''/works/OL1W'' ''Dune'' 1965, book ''/works/OL2W'' ''Emma'' 1815,
        book ''/works/OL3W'' ''Beloved'' 1987] [] [] [] ''title'')"
    by blast
  with consistent_byteCompare sort_example show ?thesis
    by blast
qed

subsection \<open>Reachable states\<close>

lemma totalPages_ge1: "1 \<le> totalPages xs"
  by (simp add: totalPages_def)

lemma totalPages_mono:
  assumes "length xs \<le> length ys"
  shows "totalPages xs \<le> totalPages ys"
proof -
  have "(length xs + 19) div 20 \<le> (length ys + 19) div 20"
    using assms by (simp add: div_le_mono)
  then show ?thesis
    by (simp add: totalPages_div)
qed

lemma visible_length:
  "length (visible lc st) =
     length (filter (passes (lang st) (yearFrom st) (yearTo st)) (docs st))"
  by (simp add: visible_def filtered_length)

lemma visible_cong:
  assumes "docs st' = docs st" and "lang st' = lang st" and "yearFrom st' = yearFrom st"
    and "yearTo st' = yearTo st" and "sortBy st' = sortBy st"
  shows "visible lc st' = visible lc st"
  using assms by (simp add: visible_def)

lemma invariant_initial: "invariant lc (initial stored)"
  by (simp add: invariant_def initial_def totalPages_ge1)

lemma invariant_first_page:
  assumes "distinct (map dunder_id (docs st))" and "uiPage st = 1"
  shows "invariant lc st"
  using assms by (simp add: invariant_def totalPages_ge1)

lemma invariant_same_view:
  assumes "invariant lc st" and "docs st' = docs st" and "lang st' = lang st"
    and "yearFrom st' = yearFrom st" and "yearTo st' = yearTo st"
    and "sortBy st' = sortBy st" and "uiPage st' = uiPage st"
  shows "invariant lc st'"
proof -
  have "visible lc st' = visible lc st"
    using assms(2-6) by (rule visible_cong)
  with assms show ?thesis by (simp add: invariant_def)
qed

lemma invariant_settle:
  assumes "invariant lc st"
  shows "invariant lc (fetchPage_settle p r st)"
proof -
  let ?st' = "fetchPage_settle p r st"
  have same: "lang ?st' = lang st" "yearFrom ?st' = yearFrom st" "yearTo ?st' = yearTo st"
    "sortBy ?st' = sortBy st" "uiPage ?st' = uiPage st"
    by (simp_all add: fetchPage_settle_def fetchPage_catch_def Let_def
        split: fetch_result.split body.split)
  define new where "new =
    (case r of
       Response status (Json d) \<Rightarrow> map (\<lambda>x. x\<lparr>dunder_id := key x\<rparr>) (list_or (data_docs d) [])
     | _ \<Rightarrow> [])"
  have "docs ?st' = docs st \<or> docs ?st' = mergeDocs (docs st) new"
    by (simp add: fetchPage_settle_def fetchPage_catch_def Let_def new_def
        split: fetch_result.split body.split)
  then show ?thesis
  proof
    assume e: "docs ?st' = docs st"
    from assms e same show ?thesis by (rule invariant_same_view)
  next
    assume m: "docs ?st' = mergeDocs (docs st) new"
    have d: "distinct (map dunder_id (docs st))"
      using assms by (simp add: invariant_def)
    have "docs ?st' = docs st @ uniqueBy_filter (dunder_id ` set (docs st)) dunder_id new"
      unfolding m using d by (rule mergeDocs_prefix)
    then have "length (visible lc st) \<le> length (visible lc ?st')"
      by (simp add: visible_length same)
    then have "totalPages (visible lc st) \<le> totalPages (visible lc ?st')"
      by (rule totalPages_mono)
    moreover have "distinct (map dunder_id (docs ?st'))"
      unfolding m by (rule mergeDocs_distinct)
    ultimately show ?thesis
      using assms by (simp add: invariant_def same)
  qed
qed

lemma invariant_step:
  assumes "invariant lc st"
  shows "invariant lc (step lc st ev)"
proof (cases ev)
  case (SetMode m)
  with assms show ?thesis by (auto intro: invariant_same_view)
next
  case (SetQuery q)
  with assms show ?thesis by (auto intro: invariant_same_view)
next
  case (SetLang l)
  with assms show ?thesis by (simp add: invariant_def totalPages_ge1)
next
  case (SetYearFrom y)
  with assms show ?thesis by (simp add: invariant_def totalPages_ge1)
next
  case (SetYearTo y)
  with assms show ?thesis by (simp add: invariant_def totalPages_ge1)
next
  case (SetSort s)
  with assms show ?thesis by (simp add: invariant_def totalPages_ge1)
next
  case Previous
  have "visible lc (st\<lparr>uiPage := max 1 (uiPage st - 1)\<rparr>) = visible lc st"
    by (simp add: visible_def)
  with Previous assms show ?thesis by (simp add: invariant_def)
next
  case Next
  have "visible lc (st\<lparr>uiPage := min (totalPages (visible lc st)) (uiPage st + 1)\<rparr>) =
      visible lc st"
    by (simp add: visible_def)
  with Next assms show ?thesis
    using totalPages_ge1 [of "visible lc st"] by (simp add: invariant_def)
next
  case SubmitSearch
  have "invariant lc (fetchPage_begin (resetResults st))"
    by (rule invariant_first_page) (simp_all add: fetchPage_begin_def resetResults_def)
  with SubmitSearch assms show ?thesis by simp
next
  case LoadMore
  have "invariant lc (fetchPage_begin st)"
    using assms by (rule invariant_same_view) (simp_all add: fetchPage_begin_def)
  with LoadMore show ?thesis by simp
next
  case (Settled p r)
  with assms show ?thesis by (simp add: invariant_settle)
next
  case (ToggleFav d)
  with assms show ?thesis by (auto intro: invariant_same_view)
next
  case (RemoveFav d)
  with assms show ?thesis by (auto intro: invariant_same_view)
next
  case (SetShowFav b)
  with assms show ?thesis by (auto intro: invariant_same_view)
next
  case (SetSelected d)
  with assms show ?thesis by (auto intro: invariant_same_view)
qed

lemma invariant_foldl: "invariant lc st \<Longrightarrow> invariant lc (foldl (step lc) st es)"
  by (induction es arbitrary: st) (simp_all add: invariant_step)

lemma invariant_run: "invariant lc (run lc stored es)"
  unfolding run_def by (rule invariant_foldl) (rule invariant_initial)

lemma totalPages_max: "totalPages xs = max 1 \<lceil>real (length xs) / real PER_PAGE\<rceil>"
  by (simp add: totalPages_def)

text \<open>
  C9 (as amended). Changing the language filter, year-from, year-to or the sort order sets
  the local page number to 1. In every state that the events can reach from the first
  render, the local page number is at least 1 and at most the larger of 1 and
  \<open>ceil(filtered-count / page-size)\<close>, which is the number of pages the component shows. The
  Previous handler never goes below 1 and the Next handler never goes past that number.
\<close>

theorem local_page_in_range:
  "uiPage (step lc st (SetLang l)) = 1 \<and>
   uiPage (step lc st (SetYearFrom a)) = 1 \<and>
   uiPage (step lc st (SetYearTo b)) = 1 \<and>
   uiPage (step lc st (SetSort s)) = 1 \<and>
   1 \<le> uiPage (run lc stored es) \<and>
   uiPage (run lc stored es) \<le>
     max 1 \<lceil>real (length (visible lc (run lc stored es))) / real PER_PAGE\<rceil> \<and>
   1 \<le> uiPage (step lc st Previous) \<and>
   uiPage (step lc st Next) \<le>
     max 1 \<lceil>real (length (visible lc (step lc st Next))) / real PER_PAGE\<rceil>"
proof (intro conjI)
  show "uiPage (step lc st (SetLang l)) = 1" by simp
  show "uiPage (step lc st (SetYearFrom a)) = 1" by simp
  show "uiPage (step lc st (SetYearTo b)) = 1" by simp
  show "uiPage (step lc st (SetSort s)) = 1" by simp
  have i: "invariant lc (run lc stored es)"
    by (rule invariant_run)
  then show "1 \<le> uiPage (run lc stored es)"
    by (simp add: invariant_def)
  from i have "uiPage (run lc stored es) \<le> totalPages (visible lc (run lc stored es))"
    by (simp add: invariant_def)
  then show "uiPage (run lc stored es) \<le>
      max 1 \<lceil>real (length (visible lc (run lc stored es))) / real PER_PAGE\<rceil>"
    by (simp only: totalPages_max)
  show "1 \<le> uiPage (step lc st Previous)" by simp
  have v: "visible lc (step lc st Next) = visible lc st"
    by (simp add: visible_def)
  have "uiPage (step lc st Next) \<le> totalPages (visible lc st)" by simp
  then show "uiPage (step lc st Next) \<le>
      max 1 \<lceil>real (length (visible lc (step lc st Next))) / real PER_PAGE\<rceil>"
    by (simp only: v totalPages_max)
qed

theorem local_page_in_range_witness:
  "uiPage (step byteCompare (initial []) (SetLang ''eng'')) = 1 \<and>
   1 \<le> uiPage (run byteCompare [] [Next, Previous]) \<and>
   uiPage (run byteCompare [] [Next, Previous]) \<le>
     max 1 \<lceil>real (length (visible byteCompare (run byteCompare [] [Next, Previous]))) /
       real PER_PAGE\<rceil>"
  using local_page_in_range [of byteCompare "initial []" "''eng''" "[]" "[]" "[]" "[]"
      "[Next, Previous]"]
  by blast

text \<open>
  In the state of the first render nothing is accumulated, so \<open>ceil(filtered-count /
  page-size)\<close> is 0, and the local page number, 1, is not within 1 and 0.
\<close>

theorem local_page_in_range_counterexample:
  "\<not> (1 \<le> uiPage (run byteCompare [] []) \<and>
      uiPage (run byteCompare [] []) \<le>
        \<lceil>real (length (visible byteCompare (run byteCompare [] []))) / real PER_PAGE\<rceil>)"
  by (simp add: run_def initial_def visible_def filtered_eq)

end
